theory Spec2Isabelle
  imports Main "HOL-Library.Monad_Syntax"
begin

text \<open>
  The Event and Booking models of the dev-events application and its database connection
  cache: the pre-save hooks that validate and normalise a document (slug, date, time,
  email, referenced event) and \<open>connectDB\<close>, embedded as functions, with the properties the
  specification states of them.
\<close>

section \<open>Strings\<close>

text \<open>
  A string of the program is a sequence of UTF-16 code units. The development covers the
  code units U+0000 .. U+00FF (Latin-1): one \<^typ>\<open>char\<close> is one code unit and
  \<^term>\<open>of_char c\<close> is its number. Code units above U+00FF are outside the model.
\<close>

definition inRange :: "char \<Rightarrow> char \<Rightarrow> char \<Rightarrow> bool" where
  \<comment> \<open>the class range \<open>lo-hi\<close> of a regular expression\<close>
  "inRange lo hi c = ((of_char lo :: nat) \<le> of_char c \<and> (of_char c :: nat) \<le> of_char hi)"

definition isDigit :: "char \<Rightarrow> bool" where
  \<comment> \<open>the class \<open>\d\<close>, that is \<open>[0-9]\<close>\<close>
  "isDigit c = inRange (CHR ''0'') (CHR ''9'') c"

definition isSpace :: "char \<Rightarrow> bool" where
  \<comment> \<open>the class \<open>\s\<close> and the characters \<open>trim\<close> strips: TAB, LF, VT, FF, CR, SP and NBSP
      (U+00A0) are the white space and line terminators below U+0100\<close>
  "isSpace c = (let n = (of_char c :: nat) in (9 \<le> n \<and> n \<le> 13) \<or> n = 32 \<or> n = 160)"

definition trim :: "string \<Rightarrow> string" where
  \<comment> \<open>\<open>String.prototype.trim\<close>\<close>
  "trim s = rev (dropWhile isSpace (rev (dropWhile isSpace s)))"

definition toLowerChar :: "char \<Rightarrow> char" where
  \<comment> \<open>the lower-case mapping below U+0100: A-Z, and U+00C0 .. U+00DE but the
      multiplication sign U+00D7, move up by 32\<close>
  "toLowerChar c =
     (let n = (of_char c :: nat) in
      if (65 \<le> n \<and> n \<le> 90) \<or> (192 \<le> n \<and> n \<le> 222 \<and> n \<noteq> 215)
      then char_of (n + 32) else c)"

definition toLowerCase :: "string \<Rightarrow> string" where
  \<comment> \<open>\<open>String.prototype.toLowerCase\<close>\<close>
  "toLowerCase s = map toLowerChar s"

definition replace_class :: "(char \<Rightarrow> bool) \<Rightarrow> string \<Rightarrow> string \<Rightarrow> string" where
  \<comment> \<open>\<open>s.replace(/[C]/g, r)\<close>: every character of the class \<open>C\<close> becomes \<open>r\<close>\<close>
  "replace_class p r s = concat (map (\<lambda>c. if p c then r else [c]) s)"

function replace_runs :: "(char \<Rightarrow> bool) \<Rightarrow> string \<Rightarrow> string \<Rightarrow> string" where
  \<comment> \<open>\<open>s.replace(/[C]+/g, r)\<close>: scanning from the left, every maximal run of characters
      of the class \<open>C\<close> becomes one \<open>r\<close>\<close>
  "replace_runs p r [] = []"
| "replace_runs p r (c # cs) =
     (if p c then r @ replace_runs p r (dropWhile p cs) else c # replace_runs p r cs)"
  by pat_completeness auto
termination
  by (relation "measure (\<lambda>(p, r, s). length s)")
     (auto simp: le_imp_less_Suc length_dropWhile_le)

definition falsy :: "string option \<Rightarrow> bool" where
  \<comment> \<open>what \<open>!v\<close> tests on a string path: \<open>undefined\<close>, \<open>null\<close> and the empty string are falsy\<close>
  "falsy v = (case v of None \<Rightarrow> True | Some s \<Rightarrow> s = [])"

section \<open>The Event model\<close>

subsection \<open>generateSlug\<close>

definition generateSlug :: "string \<Rightarrow> string" where
  "generateSlug title =
     replace_runs (\<lambda>c. c = CHR ''-'') ''-''
       (replace_runs isSpace ''-''
         (replace_class
            (\<lambda>c. \<not> (inRange (CHR ''a'') (CHR ''z'') c \<or> inRange (CHR ''0'') (CHR ''9'') c
                      \<or> isSpace c \<or> c = CHR ''-''))
            ''''
            (toLowerCase (trim title))))"

subsection \<open>Dates: the time value of a date string, and its ISO form\<close>

text \<open>
  A time value is a number of milliseconds since 1970-01-01T00:00:00Z. The day and year
  arithmetic is the one ECMA-262 defines for \<open>Date\<close>.
\<close>

definition msPerDay :: int where
  "msPerDay = 86400000"

definition Day :: "int \<Rightarrow> int" where
  "Day t = t div msPerDay"

definition DaysInYear :: "int \<Rightarrow> int" where
  "DaysInYear y =
     (if y mod 4 \<noteq> 0 then 365 else if y mod 100 \<noteq> 0 then 366
      else if y mod 400 \<noteq> 0 then 365 else 366)"

definition DayFromYear :: "int \<Rightarrow> int" where
  "DayFromYear y =
     365 * (y - 1970) + (y - 1969) div 4 - (y - 1901) div 100 + (y - 1601) div 400"

function yearFrom :: "int \<Rightarrow> int \<Rightarrow> int \<Rightarrow> int" where
  \<comment> \<open>the search for the last year that starts on or before day \<open>d\<close>, upwards from the year
      \<open>y\<close>, which starts on day \<open>start\<close>\<close>
  "yearFrom d y start =
     (if start + DaysInYear y \<le> d then yearFrom d (y + 1) (start + DaysInYear y) else y)"
  by pat_completeness auto
termination
  by (relation "measure (\<lambda>(d, y, start). nat (d - start))") (auto simp: DaysInYear_def)

declare yearFrom.simps [simp del]

definition YearFromTime :: "int \<Rightarrow> int" where
  \<comment> \<open>the largest \<open>y\<close> with \<open>DayFromYear y \<le> Day t\<close>; the search starts at a year that is
      not after it, since no year has more than 366 days or fewer than 365\<close>
  "YearFromTime t =
     (let d = Day t; y0 = 1970 + (if 0 \<le> d then d div 366 else d div 365)
      in yearFrom d y0 (DayFromYear y0))"

definition InLeapYear :: "int \<Rightarrow> int" where
  "InLeapYear t = (if DaysInYear (YearFromTime t) = 366 then 1 else 0)"

definition DayWithinYear :: "int \<Rightarrow> int" where
  "DayWithinYear t = Day t - DayFromYear (YearFromTime t)"

definition MonthFromTime :: "int \<Rightarrow> int" where
  "MonthFromTime t =
     (let d = DayWithinYear t; l = InLeapYear t in
      if d < 31 then 0 else if d < 59 + l then 1 else if d < 90 + l then 2
      else if d < 120 + l then 3 else if d < 151 + l then 4 else if d < 181 + l then 5
      else if d < 212 + l then 6 else if d < 243 + l then 7 else if d < 273 + l then 8
      else if d < 304 + l then 9 else if d < 334 + l then 10 else 11)"

definition DateFromTime :: "int \<Rightarrow> int" where
  "DateFromTime t =
     (let d = DayWithinYear t; l = InLeapYear t; m = MonthFromTime t in
      if m = 0 then d + 1 else if m = 1 then d - 30 else if m = 2 then d - 58 - l
      else if m = 3 then d - 89 - l else if m = 4 then d - 119 - l
      else if m = 5 then d - 150 - l else if m = 6 then d - 180 - l
      else if m = 7 then d - 211 - l else if m = 8 then d - 242 - l
      else if m = 9 then d - 272 - l else if m = 10 then d - 303 - l else d - 333 - l)"

definition HourFromTime :: "int \<Rightarrow> int" where
  "HourFromTime t = (t div 3600000) mod 24"

definition MinFromTime :: "int \<Rightarrow> int" where
  "MinFromTime t = (t div 60000) mod 60"

definition SecFromTime :: "int \<Rightarrow> int" where
  "SecFromTime t = (t div 1000) mod 60"

definition msFromTime :: "int \<Rightarrow> int" where
  "msFromTime t = t mod 1000"

fun decimal :: "nat \<Rightarrow> string" where
  \<comment> \<open>the decimal digits of a number\<close>
  "decimal n =
     (if n < 10 then [char_of (48 + n)] else decimal (n div 10) @ [char_of (48 + n mod 10)])"

declare decimal.simps [simp del]

definition padStart :: "nat \<Rightarrow> string \<Rightarrow> string" where
  \<comment> \<open>\<open>s.padStart(k, '0')\<close>\<close>
  "padStart k s = replicate (k - length s) (CHR ''0'') @ s"

definition pad :: "nat \<Rightarrow> int \<Rightarrow> string" where
  "pad k n = padStart k (decimal (nat n))"

definition toISOString :: "int \<Rightarrow> string" where
  \<comment> \<open>\<open>Date.prototype.toISOString\<close> of a valid time value: \<open>YYYY-MM-DDTHH:mm:ss.sssZ\<close>, the
      year written with a sign and six digits outside 0 .. 9999\<close>
  "toISOString t =
     (let y = YearFromTime t in
      (if 0 \<le> y \<and> y \<le> 9999 then pad 4 y
       else (if 0 \<le> y then ''+'' else ''-'') @ pad 6 (abs y))
      @ ''-'' @ pad 2 (MonthFromTime t + 1) @ ''-'' @ pad 2 (DateFromTime t)
      @ ''T'' @ pad 2 (HourFromTime t) @ '':'' @ pad 2 (MinFromTime t)
      @ '':'' @ pad 2 (SecFromTime t) @ ''.'' @ pad 3 (msFromTime t) @ ''Z'')"

text \<open>
  \<open>new Date(s)\<close> parses the string. ECMA-262 fixes the result for its date-time string
  format; of that format the model reads a full date (\<open>YYYY-MM-DD\<close>, or the expanded year
  \<open>+YYYYYY\<close> / \<open>-YYYYYY\<close>), alone or followed by a UTC time (\<open>THH:mm\<close>, \<open>THH:mm:ss\<close> or
  \<open>THH:mm:ss.sss\<close>, then \<open>Z\<close>), with every element in its legal range. What any other
  string parses to depends on the host (its local time zone and its fallback formats): it
  is the parameter \<open>host\<close>, \<open>None\<close> standing for \<open>NaN\<close>.
\<close>

definition number :: "string \<Rightarrow> nat" where
  "number ds = foldl (\<lambda>a c. 10 * a + (of_char c - 48)) 0 ds"

definition readDigits :: "nat \<Rightarrow> string \<Rightarrow> (nat \<times> string) option" where
  "readDigits k s =
     (if k \<le> length s \<and> list_all isDigit (take k s)
      then Some (number (take k s), drop k s) else None)"

definition expect :: "char \<Rightarrow> string \<Rightarrow> string option" where
  "expect c s = (case s of [] \<Rightarrow> None | x # xs \<Rightarrow> if x = c then Some xs else None)"

definition readYear :: "string \<Rightarrow> (int \<times> string) option" where
  "readYear s =
     (case s of
        [] \<Rightarrow> None
      | c # cs \<Rightarrow>
          if c = CHR ''+'' then
            (case readDigits 6 cs of None \<Rightarrow> None | Some (n, r) \<Rightarrow> Some (int n, r))
          else if c = CHR ''-'' then
            (case readDigits 6 cs of
               None \<Rightarrow> None
             | Some (n, r) \<Rightarrow> if n = 0 then None else Some (- int n, r))
          else
            (case readDigits 4 s of None \<Rightarrow> None | Some (n, r) \<Rightarrow> Some (int n, r)))"

definition readSeconds :: "string \<Rightarrow> (nat \<times> nat \<times> string) option" where
  "readSeconds s =
     (case expect (CHR '':'') s of
        None \<Rightarrow> Some (0, 0, s)
      | Some s1 \<Rightarrow>
          (case readDigits 2 s1 of
             None \<Rightarrow> None
           | Some (sec, s2) \<Rightarrow>
               (case expect (CHR ''.'') s2 of
                  None \<Rightarrow> Some (sec, 0, s2)
                | Some s3 \<Rightarrow>
                    (case readDigits 3 s3 of
                       None \<Rightarrow> None
                     | Some (ms, s4) \<Rightarrow> Some (sec, ms, s4)))))"

definition readTime :: "string \<Rightarrow> int option" where
  "readTime s =
     (if s = [] then Some 0
      else do {
        s1 \<leftarrow> expect (CHR ''T'') s;
        (h, s2) \<leftarrow> readDigits 2 s1;
        s3 \<leftarrow> expect (CHR '':'') s2;
        (mi, s4) \<leftarrow> readDigits 2 s3;
        (sec, ms, s5) \<leftarrow> readSeconds s4;
        s6 \<leftarrow> expect (CHR ''Z'') s5;
        if s6 = [] \<and> h \<le> 23 \<and> mi \<le> 59 \<and> sec \<le> 59
        then Some (int h * 3600000 + int mi * 60000 + int sec * 1000 + int ms)
        else None
      })"

definition DaysInMonth :: "int \<Rightarrow> nat \<Rightarrow> int" where
  \<comment> \<open>\<open>l\<close> is 1 in a leap year and 0 otherwise; months are 1 .. 12\<close>
  "DaysInMonth l m =
     (if m = 2 then 28 + l else if m = 4 \<or> m = 6 \<or> m = 9 \<or> m = 11 then 30 else 31)"

definition monthOffset :: "int \<Rightarrow> nat \<Rightarrow> int" where
  \<comment> \<open>the day within the year on which month \<open>m\<close> (1 .. 12) starts\<close>
  "monthOffset l m =
     (if m = 1 then 0 else if m = 2 then 31 else if m = 3 then 59 + l
      else if m = 4 then 90 + l else if m = 5 then 120 + l else if m = 6 then 151 + l
      else if m = 7 then 181 + l else if m = 8 then 212 + l else if m = 9 then 243 + l
      else if m = 10 then 273 + l else if m = 11 then 304 + l else 334 + l)"

definition parseISO :: "string \<Rightarrow> int option" where
  "parseISO s =
     do {
       (y, s1) \<leftarrow> readYear s;
       s2 \<leftarrow> expect (CHR ''-'') s1;
       (mo, s3) \<leftarrow> readDigits 2 s2;
       s4 \<leftarrow> expect (CHR ''-'') s3;
       (dd, s5) \<leftarrow> readDigits 2 s4;
       tm \<leftarrow> readTime s5;
       let l = (if DaysInYear y = 366 then 1 else 0) in
       if 1 \<le> mo \<and> mo \<le> 12 \<and> 1 \<le> dd \<and> int dd \<le> DaysInMonth l mo
       then Some ((DayFromYear y + monthOffset l mo + int dd - 1) * msPerDay + tm)
       else None
     }"

definition Date_parse :: "(string \<Rightarrow> int option) \<Rightarrow> string \<Rightarrow> int option" where
  "Date_parse host s = (case parseISO s of Some t \<Rightarrow> Some t | None \<Rightarrow> host s)"

definition TimeClip :: "int \<Rightarrow> int option" where
  \<comment> \<open>a time value further than 8.64e15 ms from the epoch is \<open>NaN\<close>\<close>
  "TimeClip t = (if abs t \<le> 8640000000000000 then Some t else None)"

definition new_Date :: "(string \<Rightarrow> int option) \<Rightarrow> string \<Rightarrow> int option" where
  \<comment> \<open>the time value of \<open>new Date(s)\<close>; \<open>None\<close> is the invalid date, whose \<open>getTime()\<close> is
      \<open>NaN\<close>\<close>
  "new_Date host s = (case Date_parse host s of None \<Rightarrow> None | Some t \<Rightarrow> TimeClip t)"

subsection \<open>The time pattern\<close>

fun timeMatch :: "string \<Rightarrow> (string \<times> string) option" where
  \<comment> \<open>\<open>s.match(/^([01]\d|2[0-3]):([0-5]\d)$/)\<close>: the two groups of a match, \<open>None\<close> for
      \<open>null\<close>\<close>
  "timeMatch [h1, h2, c, m1, m2] =
     (if (((h1 = CHR ''0'' \<or> h1 = CHR ''1'') \<and> isDigit h2)
          \<or> (h1 = CHR ''2'' \<and> inRange (CHR ''0'') (CHR ''3'') h2))
         \<and> c = CHR '':'' \<and> inRange (CHR ''0'') (CHR ''5'') m1 \<and> isDigit m2
      then Some ([h1, h2], [m1, m2]) else None)"
| "timeMatch _ = None"

subsection \<open>The document and the pre-save hook\<close>

datatype field =
  Title | Slug | Description | Overview | Image | Venue | Location | Date | Time | Mode
  | Audience | Organizer

text \<open>
  The string paths of an Event document are read and written by name
  (\<open>this[field]\<close>): they are a map from the path to its value, \<open>None\<close> for a path that
  holds no string (\<open>undefined\<close> or \<open>null\<close>). The two array paths hold lists of strings.
  A document also carries the framework's change tracking of its string paths: whether
  it is new (\<open>this.$isNew\<close>), and the paths marked modified since it was loaded.
\<close>

record EventDocument =
  strings :: "field \<Rightarrow> string option"
  agenda :: "string list option"
  tags :: "string list option"
  isNew :: bool
  modifiedPaths :: "field set"

datatype error =
  FieldRequired field
  | InvalidDateFormat
  | InvalidTimeFormat
  | EmailInvalid
  | EventIdRequired
  | EventNotFound
  | TypeError
  | QueryError

definition requiredStringFields :: "field list" where
  "requiredStringFields =
     [Title, Description, Overview, Image, Venue, Location, Date, Time, Mode, Audience,
      Organizer]"

definition assign :: "field \<Rightarrow> string \<Rightarrow> EventDocument \<Rightarrow> EventDocument" where
  \<comment> \<open>\<open>this[f] = v\<close>: every string path of the schema is declared \<open>trim: true\<close>, so the
      value passes through the path's trimming setter; the framework marks the path
      modified when the document is new or the value set differs from the value held
      (a path already marked stays marked)\<close>
  "assign f v d =
     d\<lparr>strings := (strings d)(f := Some (trim v)),
       modifiedPaths :=
         (if isNew d \<or> strings d f \<noteq> Some (trim v) then insert f (modifiedPaths d)
          else modifiedPaths d)\<rparr>"

definition isModified :: "field \<Rightarrow> EventDocument \<Rightarrow> bool" where
  \<comment> \<open>\<open>this.isModified(f)\<close>\<close>
  "isModified f d = (f \<in> modifiedPaths d)"

fun requireFields :: "field list \<Rightarrow> EventDocument \<Rightarrow> error + EventDocument" where
  \<comment> \<open>the loop over \<open>requiredStringFields\<close>\<close>
  "requireFields [] d = Inr d"
| "requireFields (f # fs) d =
     (case strings d f of
        None \<Rightarrow> Inl (FieldRequired f)
      | Some v \<Rightarrow>
          if length (trim v) = 0 then Inl (FieldRequired f)
          else requireFields fs (assign f (trim v) d))"

definition trimItems :: "EventDocument \<Rightarrow> error + EventDocument" where
  \<comment> \<open>\<open>this.agenda.map(..)\<close> and \<open>this.tags.map(..)\<close>; on a path that holds no array the call
      throws, and the hook's \<open>catch\<close> passes the exception on\<close>
  "trimItems d =
     (case agenda d of
        None \<Rightarrow> Inl TypeError
      | Some a \<Rightarrow>
          (case tags d of
             None \<Rightarrow> Inl TypeError
           | Some g \<Rightarrow> Inr (d\<lparr>agenda := Some (map trim a), tags := Some (map trim g)\<rparr>)))"

definition normalizeDate :: "(string \<Rightarrow> int option) \<Rightarrow> EventDocument \<Rightarrow> error + EventDocument" where
  "normalizeDate host d =
     (case strings d Date of
        None \<Rightarrow> Inl InvalidDateFormat
      | Some s \<Rightarrow>
          (case new_Date host s of
             None \<Rightarrow> Inl InvalidDateFormat
           | Some t \<Rightarrow> Inr (assign Date (takeWhile (\<lambda>c. c \<noteq> CHR ''T'') (toISOString t)) d)))"

definition normalizeTime :: "EventDocument \<Rightarrow> error + EventDocument" where
  "normalizeTime d =
     (case strings d Time of
        None \<Rightarrow> Inl TypeError
      | Some t \<Rightarrow>
          (case timeMatch (trim t) of
             None \<Rightarrow> Inl InvalidTimeFormat
           | Some (hours, minutes) \<Rightarrow> Inr (assign Time (hours @ '':'' @ minutes) d)))"

definition updateSlug :: "EventDocument \<Rightarrow> error + EventDocument" where
  "updateSlug d =
     (if isModified Title d \<or> falsy (strings d Slug)
      then (case strings d Title of
              None \<Rightarrow> Inl TypeError
            | Some t \<Rightarrow> Inr (assign Slug (generateSlug t) d))
      else Inr d)"

definition Event_preSave ::
  "(string \<Rightarrow> int option) \<Rightarrow> EventDocument \<Rightarrow> error + EventDocument" where
  \<comment> \<open>the \<open>pre('save')\<close> hook of the Event schema: \<open>Inl e\<close> is \<open>next(e)\<close>, \<open>Inr d\<close> is \<open>next()\<close>
      with the document as the hook leaves it. The hook asks \<open>this.isModified('title')\<close>
      after its own loop has written the trimmed title\<close>
  "Event_preSave host d =
     (case requireFields requiredStringFields d of
        Inl e \<Rightarrow> Inl e
      | Inr d1 \<Rightarrow>
          (case trimItems d1 of
             Inl e \<Rightarrow> Inl e
           | Inr d2 \<Rightarrow>
               (case normalizeDate host d2 of
                  Inl e \<Rightarrow> Inl e
                | Inr d3 \<Rightarrow>
                    (case normalizeTime d3 of
                       Inl e \<Rightarrow> Inl e
                     | Inr d4 \<Rightarrow> updateSlug d4))))"

section \<open>The Booking model\<close>

definition emailChar :: "char \<Rightarrow> bool" where
  \<comment> \<open>the class \<open>[^\s@]\<close>\<close>
  "emailChar c = (\<not> (isSpace c \<or> c = CHR ''@''))"

definition EMAIL_REGEX_test :: "string \<Rightarrow> bool" where
  \<comment> \<open>\<open>/^[^\s@]+@[^\s@]+\.[^\s@]+$/.test(s)\<close>. The first group is the longest run of class
      characters and must end at an \<open>@\<close>; what follows must be class characters only, with a
      dot that is neither the first nor the last of them\<close>
  "EMAIL_REGEX_test s =
     (takeWhile emailChar s \<noteq> [] \<and>
      (case dropWhile emailChar s of
         [] \<Rightarrow> False
       | c # rest \<Rightarrow>
           c = CHR ''@'' \<and> list_all emailChar rest \<and> CHR ''.'' \<in> set (butlast (tl rest))))"

record 'id BookingDocument =
  eventId :: "'id option"
  email :: "string option"

definition setEmail :: "string \<Rightarrow> string" where
  \<comment> \<open>the setters of the \<open>email\<close> path (\<open>trim: true\<close>, \<open>lowercase: true\<close>), which a value
      passes through when it is set on a document\<close>
  "setEmail v = trim (toLowerCase v)"

definition newBooking :: "'id option \<Rightarrow> string option \<Rightarrow> 'id BookingDocument" where
  \<comment> \<open>a Booking document built from the caller's input\<close>
  "newBooking i e = \<lparr>eventId = i, email = map_option setEmail e\<rparr>"

definition Booking_preSave ::
  "('id \<Rightarrow> error + bool) \<Rightarrow> 'id BookingDocument \<Rightarrow> error + 'id BookingDocument" where
  \<comment> \<open>the \<open>pre('save')\<close> hook of the Booking schema. \<open>Event_exists i\<close> is the outcome of
      \<open>await Event.exists({ _id: i })\<close>: \<open>Inr\<close> whether a document was found, \<open>Inl\<close> the
      error of a rejected query\<close>
  "Booking_preSave Event_exists b =
     (case email b of
        None \<Rightarrow> Inl EmailInvalid
      | Some e \<Rightarrow>
          if e = [] \<or> \<not> EMAIL_REGEX_test e then Inl EmailInvalid
          else
            (case eventId b of
               None \<Rightarrow> Inl EventIdRequired
             | Some i \<Rightarrow>
                 (case Event_exists i of
                    Inl err \<Rightarrow> Inl err
                  | Inr found \<Rightarrow> if found then Inr b else Inl EventNotFound)))"

section \<open>The connection cache\<close>

text \<open>
  \<open>cached.promise\<close> holds the promise of a connection attempt; a promise is named by the
  number of the \<open>mongoose.connect\<close> call that made it. \<open>connects\<close> counts the calls made so
  far. What an attempt settles to is given from outside: \<open>settle k\<close> is \<open>Inr\<close> the resolved
  instance or \<open>Inl\<close> the rejection of attempt \<open>k\<close>.
\<close>

record 'h MongooseCache =
  conn :: "'h option"
  promise :: "nat option"

record 'h process =
  cached :: "'h MongooseCache"
  connects :: nat

definition pendingPromise :: "'h process \<Rightarrow> nat \<times> 'h process" where
  \<comment> \<open>\<open>if (!cached.promise) { cached.promise = mongoose.connect(..) }\<close>: the promise the
      call then awaits, and the process\<close>
  "pendingPromise w =
     (case promise (cached w) of
        None \<Rightarrow>
          (connects w,
           w\<lparr>cached := (cached w)\<lparr>promise := Some (connects w)\<rparr>, connects := Suc (connects w)\<rparr>)
      | Some p \<Rightarrow> (p, w))"

definition connectDB :: "(nat \<Rightarrow> 'e + 'h) \<Rightarrow> 'h process \<Rightarrow> ('e + 'h) \<times> 'h process" where
  \<comment> \<open>one call of \<open>connectDB\<close> run to its end: the result (\<open>Inl\<close> is the exception thrown)
      and the process after it\<close>
  "connectDB settle w =
     (case conn (cached w) of
        Some c \<Rightarrow> (Inr c, w)
      | None \<Rightarrow>
          (case pendingPromise w of
             (p, w1) \<Rightarrow>
               (case settle p of
                  Inr m \<Rightarrow> (Inr m, w1\<lparr>cached := (cached w1)\<lparr>conn := Some m\<rparr>\<rparr>)
                | Inl e \<Rightarrow> (Inl e, w1\<lparr>cached := (cached w1)\<lparr>promise := None\<rparr>\<rparr>))))"

section \<open>The slug as the specification words it\<close>

text \<open>
  The specification describes the slug as the title trimmed, lower-cased, stripped of every
  character that is not alphanumeric (a letter A-Z or a-z, or a digit), white space or a
  hyphen, with each run of white space collapsed to one hyphen and repeated hyphens
  collapsed to one. These definitions follow that wording, step by step.
\<close>

definition alphanumeric :: "char \<Rightarrow> bool" where
  "alphanumeric c =
     (inRange (CHR ''a'') (CHR ''z'') c \<or> inRange (CHR ''A'') (CHR ''Z'') c
      \<or> inRange (CHR ''0'') (CHR ''9'') c)"

fun whitespace_runs_to_hyphen :: "string \<Rightarrow> string" where
  "whitespace_runs_to_hyphen [] = []"
| "whitespace_runs_to_hyphen [c] = (if isSpace c then ''-'' else [c])"
| "whitespace_runs_to_hyphen (c # d # cs) =
     (if isSpace c
      then (if isSpace d then whitespace_runs_to_hyphen (d # cs)
            else CHR ''-'' # whitespace_runs_to_hyphen (d # cs))
      else c # whitespace_runs_to_hyphen (d # cs))"

fun collapse_hyphens :: "string \<Rightarrow> string" where
  "collapse_hyphens [] = []"
| "collapse_hyphens [c] = [c]"
| "collapse_hyphens (c # d # cs) =
     (if c = CHR ''-'' \<and> d = CHR ''-'' then collapse_hyphens (d # cs)
      else c # collapse_hyphens (d # cs))"

definition slug_spec :: "string \<Rightarrow> string" where
  "slug_spec title =
     collapse_hyphens (whitespace_runs_to_hyphen
       (filter (\<lambda>c. alphanumeric c \<or> isSpace c \<or> c = CHR ''-'') (toLowerCase (trim title))))"

section \<open>Conditions and sample inputs\<close>

text \<open>A required path is present when it holds a string that is not blank.\<close>

definition present :: "EventDocument \<Rightarrow> field \<Rightarrow> bool" where
  "present d f = (case strings d f of None \<Rightarrow> False | Some v \<Rightarrow> trim v \<noteq> [])"

text \<open>
  A promise is made by a \<open>mongoose.connect\<close> call: a cached promise has the number of a
  call that has been made.
\<close>

definition cacheInv :: "'h process \<Rightarrow> bool" where
  "cacheInv w = (case promise (cached w) of None \<Rightarrow> True | Some p \<Rightarrow> p < connects w)"

text \<open>An event with every path filled in, a booking for it, and a process that starts.\<close>

definition sampleEvent :: "bool \<Rightarrow> field set \<Rightarrow> EventDocument" where
  \<comment> \<open>the event, as a new document or not, with the given paths marked modified\<close>
  "sampleEvent new marked =
     \<lparr>strings = (\<lambda>f. None)
        (Title \<mapsto> ''  Tech Meetup 2024!! '', Description \<mapsto> ''Monthly meetup'',
         Overview \<mapsto> ''Talks and networking'', Image \<mapsto> ''/images/meetup.png'',
         Venue \<mapsto> ''Hall A'', Location \<mapsto> ''Berlin'', Date \<mapsto> ''2024-03-05T10:00:00Z'',
         Time \<mapsto> ''09:05'', Mode \<mapsto> ''offline'', Audience \<mapsto> ''Developers'',
         Organizer \<mapsto> ''Dev Events''),
      agenda = Some [''Doors open '', ''Talks''],
      tags = Some [''tech''],
      isNew = new,
      modifiedPaths = marked\<rparr>"

definition loadedEvent :: "string \<Rightarrow> field set \<Rightarrow> EventDocument" where
  \<comment> \<open>the event as loaded from the store, with the given title and a slug of its own\<close>
  "loadedEvent title marked =
     (sampleEvent False marked)
       \<lparr>strings := (strings (sampleEvent False marked))
                     (Title \<mapsto> title, Slug \<mapsto> ''spring-meetup'')\<rparr>"

definition sampleBooking :: "nat BookingDocument" where
  "sampleBooking = newBooking (Some 7) (Some ''  Ada@Example.COM '')"

definition freshProcess :: "string process" where
  "freshProcess = \<lparr>cached = \<lparr>conn = None, promise = None\<rparr>, connects = 0\<rparr>"

definition refusedOnce :: "nat \<Rightarrow> string + string" where
  "refusedOnce k = (if k = 0 then Inl ''ECONNREFUSED'' else Inr ''mongoose'')"

section \<open>Properties of the string operations\<close>

lemma of_char_toLowerChar:
  "(of_char (toLowerChar c) :: nat) =
     (let n = (of_char c :: nat) in
      if (65 \<le> n \<and> n \<le> 90) \<or> (192 \<le> n \<and> n \<le> 222 \<and> n \<noteq> 215) then n + 32 else n)"
  by (auto simp add: toLowerChar_def Let_def)

lemma not_upper_toLowerChar: "\<not> inRange (CHR ''A'') (CHR ''Z'') (toLowerChar c)"
  by (auto simp add: inRange_def of_char_toLowerChar Let_def)


lemma toLowerChar_fixed:
  "inRange (CHR ''a'') (CHR ''z'') c \<or> inRange (CHR ''0'') (CHR ''9'') c \<or> c = CHR ''-''
   \<Longrightarrow> toLowerChar c = c"
  by (auto simp add: inRange_def toLowerChar_def Let_def)

lemma slug_char_not_space:
  "inRange (CHR ''a'') (CHR ''z'') c \<or> inRange (CHR ''0'') (CHR ''9'') c \<or> c = CHR ''-''
   \<Longrightarrow> \<not> isSpace c"
  by (auto simp add: inRange_def isSpace_def Let_def)

lemma dropEnd_keeps_head:
  "xs = [] \<or> \<not> P (hd xs) \<Longrightarrow>
   rev (dropWhile P (rev xs)) = [] \<or> \<not> P (hd (rev (dropWhile P (rev xs))))"
proof (induction xs rule: rev_induct)
  case Nil
  then show ?case by simp
next
  case (snoc x xs)
  then show ?case by (cases xs) auto
qed

lemma dropEnd_last:
  "rev (dropWhile P (rev xs)) = [] \<or> \<not> P (last (rev (dropWhile P (rev xs))))"
  using hd_dropWhile [of P "rev xs"] by (auto simp: last_rev)

lemma trim_ends: "trim s = [] \<or> (\<not> isSpace (hd (trim s)) \<and> \<not> isSpace (last (trim s)))"
proof -
  have "dropWhile isSpace s = [] \<or> \<not> isSpace (hd (dropWhile isSpace s))"
    using hd_dropWhile [of isSpace s] by blast
  from dropEnd_keeps_head [of "dropWhile isSpace s" isSpace, OF this]
    dropEnd_last [of isSpace "dropWhile isSpace s"]
  show ?thesis unfolding trim_def by blast
qed

lemma trim_fixed:
  assumes "s = [] \<or> (\<not> isSpace (hd s) \<and> \<not> isSpace (last s))"
  shows "trim s = s"
proof -
  have 1: "dropWhile isSpace s = s"
    using assms by (auto simp: dropWhile_eq_self_iff)
  have "dropWhile isSpace (rev s) = rev s"
    using assms by (auto simp: dropWhile_eq_self_iff hd_rev)
  then show ?thesis by (simp add: trim_def 1)
qed

lemma trim_trim: "trim (trim s) = trim s"
  by (rule trim_fixed) (rule trim_ends)

lemma trim_no_space: "list_all (\<lambda>c. \<not> isSpace c) s \<Longrightarrow> trim s = s"
  by (rule trim_fixed) (cases s, auto simp: list_all_iff)





subsection \<open>Pattern replacement\<close>

lemma replace_class_empty: "replace_class p [] s = filter (\<lambda>c. \<not> p c) s"
  by (induction s) (auto simp: replace_class_def)

lemma replace_runs_none: "list_all (\<lambda>c. \<not> p c) s \<Longrightarrow> replace_runs p r s = s"
  by (induction s) auto

lemma set_replace_runs: "set (replace_runs p r s) \<subseteq> set r \<union> {c \<in> set s. \<not> p c}"
proof (induction p r s rule: replace_runs.induct)
  case (1 p r)
  then show ?case by simp
next
  case (2 p r c cs)
  have "set (dropWhile p cs) \<subseteq> set cs" by (rule set_dropWhileD [THEN subsetI])
  with 2 show ?case by auto
qed

lemma dropWhile_replace_runs:
  "xs = [] \<or> \<not> p (hd xs) \<Longrightarrow> dropWhile p (replace_runs p r xs) = replace_runs p r xs"
  by (cases xs) auto

lemma replace_runs_idem:
  assumes "p h"
  shows "replace_runs p [h] (replace_runs p [h] s) = replace_runs p [h] s"
proof (induction p "[h]" s rule: replace_runs.induct)
  case (1 p)
  then show ?case by simp
next
  case (2 p c cs)
  show ?case
  proof (cases "p c")
    case True
    have "dropWhile p cs = [] \<or> \<not> p (hd (dropWhile p cs))"
      using hd_dropWhile [of p cs] by blast
    then have "dropWhile p (replace_runs p [h] (dropWhile p cs)) = replace_runs p [h] (dropWhile p cs)"
      by (rule dropWhile_replace_runs)
    with True 2 show ?thesis by simp
  next
    case False
    with 2 show ?thesis by simp
  qed
qed


section \<open>Properties of the slug\<close>

lemma generateSlug_chars:
  "list_all (\<lambda>c. inRange (CHR ''a'') (CHR ''z'') c \<or> inRange (CHR ''0'') (CHR ''9'') c
                \<or> c = CHR ''-'') (generateSlug t)"
proof -
  have "c \<in> set (generateSlug t) \<Longrightarrow>
        inRange (CHR ''a'') (CHR ''z'') c \<or> inRange (CHR ''0'') (CHR ''9'') c \<or> c = CHR ''-''" for c
    unfolding generateSlug_def replace_class_empty
    using set_replace_runs [of "\<lambda>c. c = CHR ''-''" "''-''"]  set_replace_runs [of isSpace "''-''"]
    by fastforce
  then show ?thesis by (simp add: list_all_iff)
qed

lemma generateSlug_no_space: "list_all (\<lambda>c. \<not> isSpace c) (generateSlug t)"
  using generateSlug_chars [of t] slug_char_not_space by (auto simp: list_all_iff)

lemma trim_generateSlug: "trim (generateSlug t) = generateSlug t"
  by (rule trim_no_space) (rule generateSlug_no_space)

lemma generateSlug_trim: "generateSlug (trim t) = generateSlug t"
  by (simp add: generateSlug_def trim_trim)

lemma generateSlug_idem: "generateSlug (generateSlug t) = generateSlug t"
proof -
  define inner where
    "inner = replace_runs isSpace ''-''
         (replace_class
            (\<lambda>c. \<not> (inRange (CHR ''a'') (CHR ''z'') c \<or> inRange (CHR ''0'') (CHR ''9'') c
                      \<or> isSpace c \<or> c = CHR ''-''))
            ''''
            (toLowerCase (trim t)))"
  define g where "g = generateSlug t"
  have g: "g = replace_runs (\<lambda>c. c = CHR ''-'') ''-'' inner"
    by (simp add: g_def generateSlug_def inner_def)
  have chars: "list_all (\<lambda>c. inRange (CHR ''a'') (CHR ''z'') c \<or> inRange (CHR ''0'') (CHR ''9'') c
                \<or> c = CHR ''-'') g"
    unfolding g_def by (rule generateSlug_chars)
  have 1: "trim g = g" unfolding g_def by (rule trim_generateSlug)
  have 2: "toLowerCase g = g"
    unfolding toLowerCase_def using chars toLowerChar_fixed
    by (intro map_idI) (auto simp: list_all_iff)
  have 3: "replace_class
            (\<lambda>c. \<not> (inRange (CHR ''a'') (CHR ''z'') c \<or> inRange (CHR ''0'') (CHR ''9'') c
                      \<or> isSpace c \<or> c = CHR ''-''))
            '''' g = g"
    unfolding replace_class_empty using chars by (auto simp: list_all_iff filter_id_conv)
  have 4: "replace_runs isSpace ''-'' g = g"
    unfolding g_def by (rule replace_runs_none) (rule generateSlug_no_space)
  have 5: "replace_runs (\<lambda>c. c = CHR ''-'') ''-'' g = g"
    unfolding g by (rule replace_runs_idem) simp
  have "generateSlug g = g"
    unfolding generateSlug_def [of g] 1 2 3 4 5 ..
  then show ?thesis by (simp add: g_def)
qed

lemma replace_runs_space: "replace_runs isSpace ''-'' s = whitespace_runs_to_hyphen s"
  by (induction s rule: whitespace_runs_to_hyphen.induct) auto

lemma replace_runs_hyphen: "replace_runs (\<lambda>c. c = CHR ''-'') ''-'' s = collapse_hyphens s"
  by (induction s rule: collapse_hyphens.induct) auto

lemma filter_lower:
  "filter (\<lambda>c. alphanumeric c \<or> isSpace c \<or> c = CHR ''-'') (toLowerCase s)
   = filter (\<lambda>c. \<not> \<not> (inRange (CHR ''a'') (CHR ''z'') c \<or> inRange (CHR ''0'') (CHR ''9'') c
                         \<or> isSpace c \<or> c = CHR ''-'')) (toLowerCase s)"
  unfolding toLowerCase_def
  by (rule filter_cong) (auto simp: alphanumeric_def not_upper_toLowerChar)

lemma generateSlug_eq_spec: "generateSlug t = slug_spec t"
  by (simp only: generateSlug_def slug_spec_def replace_class_empty replace_runs_space
        replace_runs_hyphen filter_lower)

lemma generateSlug_example: "generateSlug ''  Tech Meetup 2024!! '' = ''tech-meetup-2024''"
  by (simp add: generateSlug_def trim_def isSpace_def toLowerCase_def toLowerChar_def
        char_of_eq_iff replace_class_def inRange_def)

section \<open>Properties of the Event hook\<close>

text \<open>
  What each step of the hook does to the document, and from it what a run that succeeds has
  checked and stored (\<open>Event_preSave_Inr\<close>), and where a run that passes the required-field
  check ends (\<open>Event_preSave_reaches\<close>).
\<close>

lemma strings_assign [simp]:
  "strings (assign f v d) g = (if g = f then Some (trim v) else strings d g)"
  by (simp add: assign_def)

lemma agenda_assign [simp]: "agenda (assign f v d) = agenda d"
  by (simp add: assign_def)

lemma tags_assign [simp]: "tags (assign f v d) = tags d"
  by (simp add: assign_def)

lemma isNew_assign [simp]: "isNew (assign f v d) = isNew d"
  by (simp add: assign_def)

lemma modified_assign:
  "g \<in> modifiedPaths (assign f v d) \<longleftrightarrow>
     g \<in> modifiedPaths d \<or> (g = f \<and> (isNew d \<or> strings d f \<noteq> Some (trim v)))"
  by (auto simp: assign_def)

lemma present_assign:
  "present (assign f (trim v) d) g = (if g = f then trim v \<noteq> [] else present d g)"
  by (simp add: present_def trim_trim)

lemma requireFields_Inr:
  "requireFields fs d = Inr d' \<Longrightarrow>
     list_all (present d) fs \<and> agenda d' = agenda d \<and> tags d' = tags d
     \<and> strings d' = (\<lambda>g. if g \<in> set fs then map_option trim (strings d g) else strings d g)"
proof (induction fs arbitrary: d)
  case Nil
  then show ?case by simp
next
  case (Cons f fs)
  from Cons.prems obtain v where v: "strings d f = Some v" "trim v \<noteq> []"
    and r: "requireFields fs (assign f (trim v) d) = Inr d'"
    by (auto split: option.splits if_splits)
  have pf: "present d f" using v by (simp add: present_def)
  note ih = Cons.IH [OF r]
  have "present d g" if "g \<in> set fs" for g
    using ih that pf by (cases "g = f") (auto simp: list_all_iff present_assign)
  then have 1: "list_all (present d) (f # fs)"
    using pf by (simp add: list_all_iff)
  have 2: "strings d' g = (if g \<in> set (f # fs) then map_option trim (strings d g) else strings d g)" for g
    using ih v by (simp add: trim_trim)
  show ?case using 1 2 ih by (auto simp: fun_eq_iff)
qed

lemma requireFields_tracking:
  "requireFields fs d = Inr d' \<Longrightarrow>
     isNew d' = isNew d \<and>
     (g \<in> modifiedPaths d' \<longleftrightarrow>
        g \<in> modifiedPaths d
        \<or> (g \<in> set fs \<and> (isNew d \<or> (\<exists>v. strings d g = Some v \<and> trim v \<noteq> v))))"
proof (induction fs arbitrary: d)
  case Nil
  then show ?case by simp
next
  case (Cons f fs)
  from Cons.prems obtain v where v: "strings d f = Some v" "trim v \<noteq> []"
    and r: "requireFields fs (assign f (trim v) d) = Inr d'"
    by (auto split: option.splits if_splits)
  note ih = Cons.IH [OF r]
  have new: "isNew d' = isNew d" using ih by simp
  have m1: "g \<in> modifiedPaths (assign f (trim v) d) \<longleftrightarrow>
      g \<in> modifiedPaths d \<or> (g = f \<and> (isNew d \<or> trim v \<noteq> v))"
    using v by (auto simp: modified_assign trim_trim)
  have s1: "(\<exists>w. strings (assign f (trim v) d) g = Some w \<and> trim w \<noteq> w) \<longleftrightarrow>
      g \<noteq> f \<and> (\<exists>w. strings d g = Some w \<and> trim w \<noteq> w)"
    by (auto simp: trim_trim)
  have "g \<in> modifiedPaths d' \<longleftrightarrow>
      (g \<in> modifiedPaths d \<or> (g = f \<and> (isNew d \<or> trim v \<noteq> v)))
      \<or> (g \<in> set fs \<and> (isNew d \<or> (g \<noteq> f \<and> (\<exists>w. strings d g = Some w \<and> trim w \<noteq> w))))"
    using ih m1 s1 by simp
  then show ?case using new v by auto
qed

lemma requireFields_ok:
  "list_all (present d) fs \<Longrightarrow> \<exists>d'. requireFields fs d = Inr d'"
proof (induction fs arbitrary: d)
  case Nil
  then show ?case by simp
next
  case (Cons f fs)
  from Cons.prems obtain v where v: "strings d f = Some v" "trim v \<noteq> []"
    by (auto simp: present_def split: option.splits)
  have "list_all (present (assign f (trim v) d)) fs"
    using Cons.prems v by (auto simp: list_all_iff present_assign)
  from Cons.IH [OF this] v show ?case by simp
qed

lemma requireFields_fails:
  "\<not> list_all (present d) fs \<Longrightarrow> \<exists>f. requireFields fs d = Inl (FieldRequired f)"
proof (induction fs arbitrary: d)
  case Nil
  then show ?case by simp
next
  case (Cons f fs)
  show ?case
  proof (cases "present d f")
    case False
    then show ?thesis by (auto simp: present_def split: option.splits)
  next
    case True
    then obtain v where v: "strings d f = Some v" "trim v \<noteq> []"
      by (auto simp: present_def split: option.splits)
    have "\<not> list_all (present (assign f (trim v) d)) fs"
      using Cons.prems True v by (auto simp: list_all_iff present_assign)
    from Cons.IH [OF this] v show ?thesis by simp
  qed
qed

lemma timeMatch_groups: "timeMatch s = Some (h, m) \<Longrightarrow> h @ '':'' @ m = s"
  by (cases s rule: timeMatch.cases) (auto split: if_splits)

lemma timeMatch_iff:
  "timeMatch s = Some (h, m) \<longleftrightarrow>
     s = h @ '':'' @ m
     \<and> (\<exists>h1 h2. h = [h1, h2] \<and> (((h1 = CHR ''0'' \<or> h1 = CHR ''1'') \<and> isDigit h2)
                                 \<or> (h1 = CHR ''2'' \<and> inRange (CHR ''0'') (CHR ''3'') h2)))
     \<and> (\<exists>m1 m2. m = [m1, m2] \<and> inRange (CHR ''0'') (CHR ''5'') m1 \<and> isDigit m2)"
  by (cases s rule: timeMatch.cases) (auto split: if_splits)

lemma trimItems_Inr:
  "trimItems d1 = Inr d2 \<Longrightarrow>
     strings d2 = strings d1 \<and> modifiedPaths d2 = modifiedPaths d1 \<and> isNew d2 = isNew d1 \<and>
     (\<exists>a g. agenda d1 = Some a \<and> tags d1 = Some g
        \<and> agenda d2 = Some (map trim a) \<and> tags d2 = Some (map trim g))"
  by (auto simp: trimItems_def split: option.splits)

lemma normalizeDate_Inr:
  "normalizeDate host d2 = Inr d3 \<Longrightarrow>
     \<exists>s t. strings d2 Date = Some s \<and> new_Date host s = Some t
        \<and> d3 = assign Date (takeWhile (\<lambda>c. c \<noteq> CHR ''T'') (toISOString t)) d2"
  by (auto simp: normalizeDate_def split: option.splits)

lemma normalizeTime_Inr:
  "normalizeTime d3 = Inr d4 \<Longrightarrow>
     \<exists>ts h m. strings d3 Time = Some ts \<and> timeMatch (trim ts) = Some (h, m)
        \<and> d4 = assign Time (trim ts) d3"
  by (auto simp: normalizeTime_def split: option.splits dest: timeMatch_groups)

lemma updateSlug_Inr:
  "updateSlug d4 = Inr d5 \<Longrightarrow>
     (if isModified Title d4 \<or> falsy (strings d4 Slug)
      then \<exists>t. strings d4 Title = Some t \<and> d5 = assign Slug (generateSlug t) d4
      else d5 = d4)"
  by (auto simp: updateSlug_def split: option.splits if_splits)

lemma Event_preSave_Inr:
  assumes "Event_preSave host d = Inr d'"
  shows "list_all (present d) requiredStringFields \<and>
    (\<exists>a g. agenda d = Some a \<and> tags d = Some g
        \<and> agenda d' = Some (map trim a) \<and> tags d' = Some (map trim g)) \<and>
    (\<exists>ds t. strings d Date = Some ds \<and> new_Date host (trim ds) = Some t
        \<and> strings d' Date = Some (trim (takeWhile (\<lambda>c. c \<noteq> CHR ''T'') (toISOString t)))) \<and>
    (\<exists>ts h m. strings d Time = Some ts \<and> timeMatch (trim ts) = Some (h, m)
        \<and> strings d' Time = Some (trim ts)) \<and>
    (\<exists>tt. strings d Title = Some tt \<and> strings d' Title = Some (trim tt)
        \<and> strings d' Slug =
            (if isNew d \<or> isModified Title d \<or> trim tt \<noteq> tt \<or> falsy (strings d Slug)
             then Some (generateSlug tt) else strings d Slug))"
proof -
  from assms obtain d1 d2 d3 d4 where
    s1: "requireFields requiredStringFields d = Inr d1" and
    s2: "trimItems d1 = Inr d2" and
    s3: "normalizeDate host d2 = Inr d3" and
    s4: "normalizeTime d3 = Inr d4" and
    s5: "updateSlug d4 = Inr d'"
    by (auto simp: Event_preSave_def split: sum.splits)
  note r1 = requireFields_Inr [OF s1]
  have pres: "list_all (present d) requiredStringFields" using r1 by simp
  have str1: "strings d1 g =
      (if g \<in> set requiredStringFields then map_option trim (strings d g) else strings d g)" for g
    using r1 by simp
  have req: "Date \<in> set requiredStringFields" "Time \<in> set requiredStringFields"
    "Title \<in> set requiredStringFields" "Slug \<notin> set requiredStringFields"
    by (simp_all add: requiredStringFields_def)
  obtain ds where ds: "strings d Date = Some ds"
    using pres req(1) by (auto simp: list_all_iff present_def split: option.splits)
  obtain ts where ts: "strings d Time = Some ts"
    using pres req(2) by (auto simp: list_all_iff present_def split: option.splits)
  obtain tt where tt: "strings d Title = Some tt"
    using pres req(3) by (auto simp: list_all_iff present_def split: option.splits)
  note r2 = trimItems_Inr [OF s2]
  from normalizeDate_Inr [OF s3] obtain t where
    t: "new_Date host (trim ds) = Some t" and
    d3: "d3 = assign Date (takeWhile (\<lambda>c. c \<noteq> CHR ''T'') (toISOString t)) d2"
    using r2 str1 [of Date] req ds by auto
  from normalizeTime_Inr [OF s4] obtain h m where
    hm: "timeMatch (trim ts) = Some (h, m)" and d4: "d4 = assign Time (trim (trim ts)) d3"
    using r2 str1 [of Time] req ts d3 by (auto simp: trim_trim)
  have slug4: "strings d4 Slug = strings d Slug"
    using d4 d3 r2 str1 [of Slug] req by simp
  have "isModified Title d1 \<longleftrightarrow> isNew d \<or> isModified Title d \<or> trim tt \<noteq> tt"
    using requireFields_tracking [OF s1, of Title] req tt by (auto simp: isModified_def)
  then have mod4: "isModified Title d4 \<longleftrightarrow> isNew d \<or> isModified Title d \<or> trim tt \<noteq> tt"
    using d4 d3 r2 by (simp add: isModified_def modified_assign)
  have title4: "strings d4 Title = Some (trim tt)"
    using d4 d3 r2 str1 [of Title] req tt by simp
  have date4: "strings d4 Date = Some (trim (takeWhile (\<lambda>c. c \<noteq> CHR ''T'') (toISOString t)))"
    using d4 d3 by simp
  have time4: "strings d4 Time = Some (trim ts)"
    using d4 by (simp add: trim_trim)
  have lists4: "agenda d4 = agenda d2" "tags d4 = tags d2"
    using d4 d3 by simp_all
  from updateSlug_Inr [OF s5] have
    fin: "strings d' Date = strings d4 Date" "strings d' Time = strings d4 Time"
      "strings d' Title = strings d4 Title" "agenda d' = agenda d4" "tags d' = tags d4"
      "strings d' Slug =
         (if isNew d \<or> isModified Title d \<or> trim tt \<noteq> tt \<or> falsy (strings d Slug)
          then Some (generateSlug tt) else strings d Slug)"
    using slug4 title4 mod4 by (auto split: if_splits simp: trim_generateSlug generateSlug_trim)
  show ?thesis
    using pres r1 r2 ds t ts hm tt fin date4 time4 title4 lists4 by simp
qed


lemma Event_preSave_reaches:
  assumes pres: "list_all (present d) requiredStringFields"
    and lists: "agenda d = Some a" "tags d = Some g"
    and ds: "strings d Date = Some ds"
    and ts: "strings d Time = Some ts"
  shows "(new_Date host (trim ds) = None \<longrightarrow> Event_preSave host d = Inl InvalidDateFormat)
     \<and> (new_Date host (trim ds) \<noteq> None \<and> timeMatch (trim ts) = None
          \<longrightarrow> Event_preSave host d = Inl InvalidTimeFormat)
     \<and> (new_Date host (trim ds) \<noteq> None \<and> timeMatch (trim ts) \<noteq> None
          \<longrightarrow> (\<exists>d'. Event_preSave host d = Inr d'))"
proof -
  from requireFields_ok [OF pres] obtain d1 where
    s1: "requireFields requiredStringFields d = Inr d1" by blast
  note r1 = requireFields_Inr [OF s1]
  have str1: "strings d1 g =
      (if g \<in> set requiredStringFields then map_option trim (strings d g) else strings d g)" for g
    using r1 by simp
  have req: "Date \<in> set requiredStringFields" "Time \<in> set requiredStringFields"
    "Title \<in> set requiredStringFields" "Slug \<notin> set requiredStringFields"
    by (simp_all add: requiredStringFields_def)
  obtain tt where tt: "strings d Title = Some tt"
    using pres req(3) by (auto simp: list_all_iff present_def split: option.splits)
  define d2 where "d2 = d1\<lparr>agenda := Some (map trim a), tags := Some (map trim g)\<rparr>"
  have s2: "trimItems d1 = Inr d2"
    using r1 lists by (simp add: trimItems_def d2_def)
  have str2: "strings d2 = strings d1" by (simp add: d2_def)
  have date2: "strings d2 Date = Some (trim ds)" using str2 str1 [of Date] req ds by simp
  have time2: "strings d2 Time = Some (trim ts)" using str2 str1 [of Time] req ts by simp
  have title2: "strings d2 Title = Some (trim tt)" using str2 str1 [of Title] req tt by simp
  show ?thesis
  proof (cases "new_Date host (trim ds)")
    case None
    then show ?thesis
      by (simp add: Event_preSave_def s1 s2 normalizeDate_def date2)
  next
    case (Some t)
    define d3 where "d3 = assign Date (takeWhile (\<lambda>c. c \<noteq> CHR ''T'') (toISOString t)) d2"
    have s3: "normalizeDate host d2 = Inr d3"
      by (simp add: normalizeDate_def date2 Some d3_def)
    have time3: "strings d3 Time = Some (trim ts)" using time2 by (simp add: d3_def)
    have title3: "strings d3 Title = Some (trim tt)" using title2 by (simp add: d3_def)
    show ?thesis
    proof (cases "timeMatch (trim ts)")
      case None
      then show ?thesis
        by (simp add: Event_preSave_def s1 s2 s3 normalizeTime_def time3 trim_trim Some)
    next
      case hm: (Some p)
      obtain h m where p: "p = (h, m)" by (cases p)
      define d4 where "d4 = assign Time (h @ '':'' @ m) d3"
      have s4: "normalizeTime d3 = Inr d4"
        using hm p by (simp add: normalizeTime_def time3 trim_trim d4_def)
      have title4: "strings d4 Title = Some (trim tt)" using title3 by (simp add: d4_def)
      have "\<exists>d'. updateSlug d4 = Inr d'"
        by (simp add: updateSlug_def title4)
      then show ?thesis
        by (simp add: Event_preSave_def s1 s2 s3 s4 Some hm)
    qed
  qed
qed

lemma Event_preSave_bad_time:
  assumes "strings d Time = Some ts" "timeMatch (trim ts) = None"
  shows "isl (Event_preSave host d)"
proof (cases "Event_preSave host d")
  case (Inl e)
  then show ?thesis by simp
next
  case (Inr d')
  from Event_preSave_Inr [OF Inr] assms show ?thesis by auto
qed

lemma Event_preSave_bad_date:
  assumes "strings d Date = Some ds" "new_Date host (trim ds) = None"
  shows "isl (Event_preSave host d)"
proof (cases "Event_preSave host d")
  case (Inl e)
  then show ?thesis by simp
next
  case (Inr d')
  from Event_preSave_Inr [OF Inr] assms show ?thesis by auto
qed

lemma Event_preSave_absent:
  assumes "f \<in> set requiredStringFields" "\<not> present d f"
  shows "\<exists>g. Event_preSave host d = Inl (FieldRequired g)"
proof -
  have "\<not> list_all (present d) requiredStringFields"
    using assms by (auto simp: list_all_iff)
  from requireFields_fails [OF this] show ?thesis
    by (auto simp: Event_preSave_def)
qed

section \<open>Properties of the date arithmetic\<close>

text \<open>
  \<open>YearFromTime\<close> is the year ECMA-262 defines: the last year that starts on or before the
  day of the time value. Within the years 0 .. 9999 the date part of the ISO string is
  \<open>YYYY-MM-DD\<close>, and so is the date the hook stores.
\<close>

lemma div_succ:
  fixes x k :: int
  assumes "0 < k"
  shows "(x + 1) div k = x div k + (if (x + 1) mod k = 0 then 1 else 0)"
proof -
  define q where "q = x div k"
  define r where "r = x mod k"
  have x: "x = k * q + r" and r: "0 \<le> r" "r < k"
    using assms by (simp_all add: q_def r_def)
  show ?thesis
  proof (cases "r + 1 < k")
    case True
    have e: "x + 1 = k * q + (r + 1)" using x by simp
    have "(x + 1) div k = q" using True r by (intro int_div_pos_eq [OF e]) auto
    moreover have "(x + 1) mod k = r + 1" using True r by (intro int_mod_pos_eq [OF e]) auto
    ultimately show ?thesis using r by (simp add: q_def)
  next
    case False
    then have "r + 1 = k" using r by simp
    then have e: "x + 1 = k * (q + 1) + 0" using x by (simp add: algebra_simps)
    have "(x + 1) div k = q + 1" using assms by (intro int_div_pos_eq [OF e]) auto
    moreover have "(x + 1) mod k = 0" using assms by (intro int_mod_pos_eq [OF e]) auto
    ultimately show ?thesis by (simp add: q_def)
  qed
qed

lemma leap_step4:
  "(y - 1968) div 4 = (y - 1969) div 4 + (if y mod 4 = 0 then 1 else 0)" for y :: int
proof -
  have "(y - 1968) mod 4 = y mod 4"
    using mod_mult_self2 [of "y - 1968" 4 492] by simp
  then show ?thesis using div_succ [of 4 "y - 1969"] by simp
qed

lemma leap_step100:
  "(y - 1900) div 100 = (y - 1901) div 100 + (if y mod 100 = 0 then 1 else 0)" for y :: int
proof -
  have "(y - 1900) mod 100 = y mod 100"
    using mod_mult_self2 [of "y - 1900" 100 19] by simp
  then show ?thesis using div_succ [of 100 "y - 1901"] by simp
qed

lemma leap_step400:
  "(y - 1600) div 400 = (y - 1601) div 400 + (if y mod 400 = 0 then 1 else 0)" for y :: int
proof -
  have "(y - 1600) mod 400 = y mod 400"
    using mod_mult_self2 [of "y - 1600" 400 4] by simp
  then show ?thesis using div_succ [of 400 "y - 1601"] by simp
qed

lemma mod_400_100: "y mod 400 = 0 \<Longrightarrow> y mod 100 = 0" for y :: int
proof -
  assume "y mod 400 = 0"
  then have "400 dvd y" by (simp add: dvd_eq_mod_eq_0)
  moreover have "(100::int) dvd 400" by simp
  ultimately have "100 dvd y" using dvd_trans by blast
  then show ?thesis by (simp add: dvd_eq_mod_eq_0)
qed

lemma mod_100_4: "y mod 100 = 0 \<Longrightarrow> y mod 4 = 0" for y :: int
proof -
  assume "y mod 100 = 0"
  then have "100 dvd y" by (simp add: dvd_eq_mod_eq_0)
  moreover have "(4::int) dvd 100" by simp
  ultimately have "4 dvd y" using dvd_trans by blast
  then show ?thesis by (simp add: dvd_eq_mod_eq_0)
qed

lemma DayFromYear_next: "DayFromYear (y + 1) = DayFromYear y + DaysInYear y"
proof -
  have a: "(y + 1 - 1969) = y - 1968" "(y + 1 - 1901) = y - 1900" "(y + 1 - 1601) = y - 1600"
    by simp_all
  show ?thesis
    unfolding DayFromYear_def DaysInYear_def a leap_step4 leap_step100 leap_step400
    using mod_400_100 [of y] mod_100_4 [of y]
    by (simp split: if_splits)
qed

lemma DayFromYear_1970: "DayFromYear 1970 = 0"
  by (simp add: DayFromYear_def)

lemma DaysInYear_bounds: "365 \<le> DaysInYear y \<and> DaysInYear y \<le> 366"
  by (simp add: DaysInYear_def)

lemma DayFromYear_after: "DayFromYear (1970 + int n) \<le> 366 * int n"
proof (induction n)
  case 0
  then show ?case by (simp add: DayFromYear_1970)
next
  case (Suc n)
  have "DayFromYear (1970 + int n + 1) = DayFromYear (1970 + int n) + DaysInYear (1970 + int n)"
    by (rule DayFromYear_next)
  with Suc DaysInYear_bounds [of "1970 + int n"] show ?case
    by (simp add: algebra_simps)
qed

lemma DayFromYear_before: "DayFromYear (1970 - int n) \<le> - 365 * int n"
proof (induction n)
  case 0
  then show ?case by (simp add: DayFromYear_1970)
next
  case (Suc n)
  have "DayFromYear (1970 - int (Suc n) + 1) = DayFromYear (1970 - int (Suc n)) + DaysInYear (1970 - int (Suc n))"
    by (rule DayFromYear_next)
  moreover have "1970 - int (Suc n) + 1 = 1970 - int n" by simp
  ultimately show ?case
    using Suc DaysInYear_bounds [of "1970 - int (Suc n)"] by (simp add: algebra_simps)
qed

lemma year_estimate:
  "DayFromYear (1970 + (if 0 \<le> d then d div 366 else d div 365)) \<le> d"
proof (cases "0 \<le> d")
  case True
  define n where "n = nat (d div 366)"
  have q: "d div 366 = int n" using True by (simp add: n_def)
  have "366 * (d div 366) \<le> d"
    using True by (simp add: algebra_simps)
  with DayFromYear_after [of n] True show ?thesis by (simp add: q)
next
  case False
  define n where "n = nat (- (d div 365))"
  have "d div 365 < 0" using False by simp
  then have q: "d div 365 = - int n" by (simp add: n_def)
  have "365 * (d div 365) \<le> d"
    by (simp add: algebra_simps)
  with DayFromYear_before [of n] False show ?thesis by (simp add: q)
qed

lemma yearFrom_correct:
  "start = DayFromYear y \<Longrightarrow> start \<le> d \<Longrightarrow>
     DayFromYear (yearFrom d y start) \<le> d \<and> d < DayFromYear (yearFrom d y start + 1)"
proof (induction d y start rule: yearFrom.induct)
  case (1 d y start)
  have nxt: "DayFromYear (y + 1) = start + DaysInYear y"
    using "1.prems"(1) by (simp add: DayFromYear_next)
  show ?case
  proof (cases "start + DaysInYear y \<le> d")
    case True
    then have u: "yearFrom d y start = yearFrom d (y + 1) (start + DaysInYear y)"
      by (subst yearFrom.simps) simp
    from "1.IH" [OF True nxt [symmetric] True] show ?thesis
      unfolding u .
  next
    case False
    then have u: "yearFrom d y start = y"
      by (subst yearFrom.simps) simp
    from False "1.prems" nxt show ?thesis
      unfolding u by simp
  qed
qed

lemma YearFromTime_correct:
  "DayFromYear (YearFromTime t) \<le> Day t \<and> Day t < DayFromYear (YearFromTime t + 1)"
  unfolding YearFromTime_def Let_def
  by (rule yearFrom_correct) (simp_all add: year_estimate)

lemma DayWithinYear_bounds:
  "0 \<le> DayWithinYear t \<and> DayWithinYear t < 365 + InLeapYear t"
proof -
  have "DaysInYear (YearFromTime t) = 365 + InLeapYear t"
    by (simp add: InLeapYear_def DaysInYear_def)
  with YearFromTime_correct [of t] DayFromYear_next [of "YearFromTime t"]
  show ?thesis by (simp add: DayWithinYear_def)
qed

lemma InLeapYear_cases: "InLeapYear t = 0 \<or> InLeapYear t = 1"
  by (simp add: InLeapYear_def)

lemma MonthFromTime_bounds: "0 \<le> MonthFromTime t \<and> MonthFromTime t \<le> 11"
  by (simp add: MonthFromTime_def Let_def)

lemma DateFromTime_bounds: "1 \<le> DateFromTime t \<and> DateFromTime t \<le> 31"
  using DayWithinYear_bounds [of t] InLeapYear_cases [of t]
  unfolding DateFromTime_def MonthFromTime_def Let_def
  by (auto split: if_splits)

lemma isDigit_decimal_char: "m < 10 \<Longrightarrow> isDigit (char_of (48 + m :: nat))"
  by (simp add: isDigit_def inRange_def)

lemma decimal_digits: "list_all isDigit (decimal n)"
proof (induction n rule: decimal.induct)
  case (1 n)
  show ?case
  proof (cases "n < 10")
    case True
    then show ?thesis by (simp add: decimal.simps [of n] isDigit_decimal_char)
  next
    case False
    with "1.IH" show ?thesis
      by (simp add: decimal.simps [of n] isDigit_decimal_char)
  qed
qed

lemma length_decimal: "n < 10 ^ k \<Longrightarrow> 0 < k \<Longrightarrow> length (decimal n) \<le> k"
proof (induction k arbitrary: n)
  case 0
  then show ?case by simp
next
  case (Suc k)
  show ?case
  proof (cases "n < 10")
    case True
    then show ?thesis by (simp add: decimal.simps [of n])
  next
    case False
    with Suc.prems have k: "0 < k" by (cases k) auto
    from Suc.prems have "n div 10 < 10 ^ k" by (simp add: less_mult_imp_div_less)
    from Suc.IH [OF this k] False show ?thesis by (simp add: decimal.simps [of n])
  qed
qed

lemma pad_fixed_width:
  assumes "0 \<le> n" "n < 10 ^ k" "0 < k"
  shows "length (pad k n) = k \<and> list_all isDigit (pad k n)"
proof -
  have "nat n < 10 ^ k" using assms by (simp add: nat_less_iff)
  note l = length_decimal [OF this assms(3)]
  have z: "isDigit (CHR ''0'')" by (simp add: isDigit_def inRange_def)
  have "list_all isDigit (replicate (k - length (decimal (nat n))) (CHR ''0''))"
    using z by (simp add: list_all_iff)
  with l decimal_digits [of "nat n"] show ?thesis
    by (simp add: pad_def padStart_def)
qed

lemma digit_not_T: "isDigit c \<Longrightarrow> c \<noteq> CHR ''T''"
  by (auto simp: isDigit_def inRange_def)

lemma digit_not_space: "isDigit c \<Longrightarrow> \<not> isSpace c"
  by (auto simp: isDigit_def inRange_def isSpace_def Let_def)

lemma toISOString_date_part:
  assumes "0 \<le> YearFromTime t" "YearFromTime t \<le> 9999"
  shows "\<exists>y m d. takeWhile (\<lambda>c. c \<noteq> CHR ''T'') (toISOString t) = y @ ''-'' @ m @ ''-'' @ d
           \<and> length y = 4 \<and> length m = 2 \<and> length d = 2
           \<and> list_all isDigit y \<and> list_all isDigit m \<and> list_all isDigit d"
proof -
  define y where "y = pad 4 (YearFromTime t)"
  define m where "m = pad 2 (MonthFromTime t + 1)"
  define d where "d = pad 2 (DateFromTime t)"
  define rest where "rest = pad 2 (HourFromTime t) @ '':'' @ pad 2 (MinFromTime t)
      @ '':'' @ pad 2 (SecFromTime t) @ ''.'' @ pad 3 (msFromTime t) @ ''Z''"
  have y: "length y = 4 \<and> list_all isDigit y"
    unfolding y_def using assms by (intro pad_fixed_width) auto
  have m: "length m = 2 \<and> list_all isDigit m"
    unfolding m_def using MonthFromTime_bounds [of t] by (intro pad_fixed_width) auto
  have d: "length d = 2 \<and> list_all isDigit d"
    unfolding d_def using DateFromTime_bounds [of t] by (intro pad_fixed_width) auto
  have iso: "toISOString t = (y @ ''-'' @ m @ ''-'' @ d) @ CHR ''T'' # rest"
    using assms by (simp add: toISOString_def Let_def y_def m_def d_def rest_def)
  have "\<forall>c \<in> set (y @ ''-'' @ m @ ''-'' @ d). c \<noteq> CHR ''T''"
    using y m d digit_not_T by (auto simp: list_all_iff)
  then have "takeWhile (\<lambda>c. c \<noteq> CHR ''T'') (toISOString t) = y @ ''-'' @ m @ ''-'' @ d"
    unfolding iso by (subst takeWhile_append2) auto
  with y m d show ?thesis by blast
qed

lemma stored_date_ten_characters:
  assumes "Event_preSave host doc = Inr doc'"
  shows "\<exists>ds t. strings doc Date = Some ds \<and> new_Date host (trim ds) = Some t
     \<and> (0 \<le> YearFromTime t \<and> YearFromTime t \<le> 9999 \<longrightarrow>
          (\<exists>y m d. strings doc' Date = Some (y @ ''-'' @ m @ ''-'' @ d)
             \<and> length y = 4 \<and> length m = 2 \<and> length d = 2
             \<and> list_all isDigit y \<and> list_all isDigit m \<and> list_all isDigit d))"
proof -
  from Event_preSave_Inr [OF assms] obtain ds t where
    ds: "strings doc Date = Some ds" "new_Date host (trim ds) = Some t" and
    st: "strings doc' Date = Some (trim (takeWhile (\<lambda>c. c \<noteq> CHR ''T'') (toISOString t)))"
    by blast
  have "\<exists>y m d. strings doc' Date = Some (y @ ''-'' @ m @ ''-'' @ d)
             \<and> length y = 4 \<and> length m = 2 \<and> length d = 2
             \<and> list_all isDigit y \<and> list_all isDigit m \<and> list_all isDigit d"
    if "0 \<le> YearFromTime t \<and> YearFromTime t \<le> 9999"
  proof -
    from toISOString_date_part [of t] that obtain y m d where
      p: "takeWhile (\<lambda>c. c \<noteq> CHR ''T'') (toISOString t) = y @ ''-'' @ m @ ''-'' @ d"
      and f: "length y = 4" "length m = 2" "length d = 2"
        "list_all isDigit y" "list_all isDigit m" "list_all isDigit d"
      by blast
    have "list_all (\<lambda>c. \<not> isSpace c) (y @ ''-'' @ m @ ''-'' @ d)"
      using f digit_not_space by (auto simp: list_all_iff isSpace_def)
    then have "trim (y @ ''-'' @ m @ ''-'' @ d) = y @ ''-'' @ m @ ''-'' @ d"
      by (rule trim_no_space)
    with st p f show ?thesis by auto
  qed
  with ds show ?thesis by blast
qed

subsection \<open>Evaluation on the sample event\<close>

lemmas string_defs = trim_def isSpace_def toLowerCase_def toLowerChar_def char_of_eq_iff
  replace_class_def inRange_def isDigit_def

lemmas parse_defs = parseISO_def readYear_def readDigits_def expect_def readTime_def
  readSeconds_def isDigit_def inRange_def number_def DaysInYear_def DaysInMonth_def
  monthOffset_def DayFromYear_def msPerDay_def Date_parse_def new_Date_def TimeClip_def

lemma sample_date: "new_Date host ''2024-03-05T10:00:00Z'' = Some 1709632800000"
  by (simp add: parse_defs)

lemma big_date: "new_Date host ''+010000-01-01T00:00:00.000Z'' = Some 253402300800000"
  by (simp add: parse_defs)

lemma year_2024: "YearFromTime 1709632800000 = 2024"
  by (simp add: YearFromTime_def Day_def msPerDay_def yearFrom.simps DayFromYear_def
        DaysInYear_def)

lemma year_10000: "YearFromTime 253402300800000 = 10000"
  by (simp add: YearFromTime_def Day_def msPerDay_def yearFrom.simps DayFromYear_def
        DaysInYear_def)

lemma replicate_numeral: "replicate (numeral k) x = x # replicate (pred_numeral k) x"
  by (simp add: numeral_eq_Suc)

lemmas iso_defs = replicate_numeral toISOString_def MonthFromTime_def DateFromTime_def
  DayWithinYear_def InLeapYear_def DaysInYear_def Day_def msPerDay_def DayFromYear_def
  HourFromTime_def MinFromTime_def SecFromTime_def msFromTime_def pad_def padStart_def
  decimal.simps char_of_eq_iff

lemma iso_2024: "toISOString 1709632800000 = ''2024-03-05T10:00:00.000Z''"
  by (simp add: iso_defs year_2024)

lemma iso_10000: "toISOString 253402300800000 = ''+010000-01-01T00:00:00.000Z''"
  by (simp add: iso_defs year_10000)

lemma Event_preSave_run:
  assumes "list_all (present d) requiredStringFields" "agenda d \<noteq> None" "tags d \<noteq> None"
    and "strings d Date = Some ds" "new_Date host (trim ds) = Some t"
    and "strings d Time = Some ts" "timeMatch (trim ts) \<noteq> None"
    and "strings d Title = Some tt"
  shows "\<exists>d'. Event_preSave host d = Inr d'
     \<and> strings d' Date = Some (trim (takeWhile (\<lambda>c. c \<noteq> CHR ''T'') (toISOString t)))
     \<and> strings d' Time = Some (trim ts)
     \<and> strings d' Title = Some (trim tt)
     \<and> strings d' Slug =
          (if isNew d \<or> isModified Title d \<or> trim tt \<noteq> tt \<or> falsy (strings d Slug)
           then Some (generateSlug tt) else strings d Slug)"
proof -
  from assms obtain a g where l: "agenda d = Some a" "tags d = Some g" by auto
  from Event_preSave_reaches [OF assms(1) l assms(4,6), of host] assms(5,7)
  obtain d' where d': "Event_preSave host d = Inr d'" by auto
  from Event_preSave_Inr [OF d'] assms d' show ?thesis by auto
qed

lemma sampleEvent_strings:
  "strings (sampleEvent new marked) =
     (\<lambda>f. None)
        (Title \<mapsto> ''  Tech Meetup 2024!! '', Description \<mapsto> ''Monthly meetup'',
         Overview \<mapsto> ''Talks and networking'', Image \<mapsto> ''/images/meetup.png'',
         Venue \<mapsto> ''Hall A'', Location \<mapsto> ''Berlin'', Date \<mapsto> ''2024-03-05T10:00:00Z'',
         Time \<mapsto> ''09:05'', Mode \<mapsto> ''offline'', Audience \<mapsto> ''Developers'',
         Organizer \<mapsto> ''Dev Events'')"
  by (simp add: sampleEvent_def)

lemma sampleEvent_tracking:
  "isNew (sampleEvent new marked) = new" "modifiedPaths (sampleEvent new marked) = marked"
  "agenda (sampleEvent new marked) \<noteq> None" "tags (sampleEvent new marked) \<noteq> None"
  by (simp_all add: sampleEvent_def)

lemma sample_slugs:
  "generateSlug ''Tech Meetup 2024'' = ''tech-meetup-2024''" "generateSlug ''!!!'' = []"
  by (simp_all add: generateSlug_def string_defs)

lemmas sample_defs = sampleEvent_strings sampleEvent_tracking requiredStringFields_def
  present_def trim_def isSpace_def isDigit_def inRange_def sample_date big_date iso_2024
  iso_10000 isModified_def falsy_def

lemma date_example:
  "\<exists>d'. Event_preSave host (sampleEvent new marked) = Inr d'
        \<and> strings (sampleEvent new marked) Date = Some ''2024-03-05T10:00:00Z''
        \<and> strings d' Date = Some ''2024-03-05''"
proof -
  from Event_preSave_run [of "sampleEvent new marked" "''2024-03-05T10:00:00Z''" host
      1709632800000 "''09:05''" "''  Tech Meetup 2024!! ''"]
  obtain d' where "Event_preSave host (sampleEvent new marked) = Inr d'
      \<and> strings d' Date = Some ''2024-03-05''"
    by (simp add: sample_defs) blast
  thus ?thesis by (simp add: sampleEvent_strings)
qed

lemma Event_preSave_time_refused:
  assumes "list_all (present d) requiredStringFields" "agenda d \<noteq> None" "tags d \<noteq> None"
    and "strings d Date = Some ds" "new_Date host (trim ds) = Some t"
    and "strings d Time = Some ts" "timeMatch (trim ts) = None"
  shows "Event_preSave host d = Inl InvalidTimeFormat"
proof -
  from assms obtain a g where l: "agenda d = Some a" "tags d = Some g" by auto
  from Event_preSave_reaches [OF assms(1) l assms(4,6), of host] assms(5,7)
  show ?thesis by auto
qed

lemma Event_preSave_title_marked:
  assumes "Event_preSave host d = Inr d'" and tt: "strings d Title = Some tt"
  shows "isModified Title d' \<longleftrightarrow> isNew d \<or> isModified Title d \<or> trim tt \<noteq> tt"
proof -
  from assms(1) obtain d1 d2 d3 d4 where
    s1: "requireFields requiredStringFields d = Inr d1" and
    s2: "trimItems d1 = Inr d2" and
    s3: "normalizeDate host d2 = Inr d3" and
    s4: "normalizeTime d3 = Inr d4" and
    s5: "updateSlug d4 = Inr d'"
    by (auto simp: Event_preSave_def split: sum.splits)
  have req: "Title \<in> set requiredStringFields" by (simp add: requiredStringFields_def)
  have m1: "isModified Title d1 \<longleftrightarrow> isNew d \<or> isModified Title d \<or> trim tt \<noteq> tt"
    using requireFields_tracking [OF s1, of Title] req tt by (auto simp: isModified_def)
  have m2: "isModified Title d2 = isModified Title d1"
    using trimItems_Inr [OF s2] by (simp add: isModified_def)
  have m3: "isModified Title d3 = isModified Title d2"
    using normalizeDate_Inr [OF s3] by (auto simp: isModified_def modified_assign)
  have m4: "isModified Title d4 = isModified Title d3"
    using normalizeTime_Inr [OF s4] by (auto simp: isModified_def modified_assign)
  have m5: "isModified Title d' = isModified Title d4"
    using updateSlug_Inr [OF s5] by (auto simp: isModified_def modified_assign split: if_splits)
  show ?thesis using m1 m2 m3 m4 m5 by simp
qed

lemma loadedEvent_facts:
  "strings (loadedEvent title marked) =
     (strings (sampleEvent False marked))(Title \<mapsto> title, Slug \<mapsto> ''spring-meetup'')"
  "isNew (loadedEvent title marked) = False"
  "modifiedPaths (loadedEvent title marked) = marked"
  "agenda (loadedEvent title marked) \<noteq> None" "tags (loadedEvent title marked) \<noteq> None"
  by (simp_all add: loadedEvent_def sampleEvent_tracking)

section \<open>Properties of the Booking hook\<close>

text \<open>
  The test accepts the strings of the pattern: a non-empty \<open>local\<close> part, \<open>@\<close>, and a domain
  with a dot inside it, none of them with white space or another \<open>@\<close>.
\<close>

lemma emailChar_dot: "emailChar (CHR ''.'')"
  by (simp add: emailChar_def isSpace_def)

lemma emailChar_at: "\<not> emailChar (CHR ''@'')"
  by (simp add: emailChar_def)

lemma EMAIL_REGEX_test_iff:
  "EMAIL_REGEX_test s \<longleftrightarrow>
     (\<exists>a b c. s = a @ ''@'' @ b @ ''.'' @ c \<and> a \<noteq> [] \<and> b \<noteq> [] \<and> c \<noteq> []
        \<and> list_all emailChar a \<and> list_all emailChar b \<and> list_all emailChar c)"
proof
  assume t: "EMAIL_REGEX_test s"
  define a where "a = takeWhile emailChar s"
  from t obtain rest where
    a: "a \<noteq> []" and dw: "dropWhile emailChar s = CHR ''@'' # rest" and
    r: "list_all emailChar rest" and dot: "CHR ''.'' \<in> set (butlast (tl rest))"
    by (auto simp: EMAIL_REGEX_test_def a_def split: list.splits)
  have s: "s = a @ CHR ''@'' # rest"
    using takeWhile_dropWhile_id [of emailChar s] by (simp add: a_def dw)
  have aa: "list_all emailChar a"
    by (auto simp: a_def list_all_iff dest: set_takeWhileD)
  from dot have ne: "tl rest \<noteq> []" by auto
  then obtain r0 where r0: "rest = r0 # tl rest" by (cases rest) auto
  from dot obtain u v where uv: "butlast (tl rest) = u @ CHR ''.'' # v"
    by (auto dest: split_list)
  have "tl rest = butlast (tl rest) @ [last (tl rest)]"
    using ne by simp
  then have "rest = (r0 # u) @ ''.'' @ (v @ [last (tl rest)])"
    using r0 uv by (metis append_Cons append_Nil append_assoc)
  moreover from this r have "list_all emailChar (r0 # u)" "list_all emailChar (v @ [last (tl rest)])"
    by (metis list_all_append)+
  ultimately show "\<exists>a b c. s = a @ ''@'' @ b @ ''.'' @ c \<and> a \<noteq> [] \<and> b \<noteq> [] \<and> c \<noteq> []
        \<and> list_all emailChar a \<and> list_all emailChar b \<and> list_all emailChar c"
    using s a aa by (intro exI [of _ a] exI [of _ "r0 # u"] exI [of _ "v @ [last (tl rest)]"]) simp
next
  assume "\<exists>a b c. s = a @ ''@'' @ b @ ''.'' @ c \<and> a \<noteq> [] \<and> b \<noteq> [] \<and> c \<noteq> []
        \<and> list_all emailChar a \<and> list_all emailChar b \<and> list_all emailChar c"
  then obtain a b c where s: "s = a @ CHR ''@'' # (b @ CHR ''.'' # c)"
    and ne: "a \<noteq> []" "b \<noteq> []" "c \<noteq> []"
    and al: "list_all emailChar a" "list_all emailChar b" "list_all emailChar c"
    by auto
  have tw: "takeWhile emailChar s = a"
    unfolding s using al(1) emailChar_at by (subst takeWhile_append2) (auto simp: list_all_iff)
  have dw: "dropWhile emailChar s = CHR ''@'' # (b @ CHR ''.'' # c)"
    unfolding s using al(1) emailChar_at by (subst dropWhile_append2) (auto simp: list_all_iff)
  have r: "list_all emailChar (b @ CHR ''.'' # c)"
    using al emailChar_dot by simp
  have "butlast (tl (b @ CHR ''.'' # c)) = tl b @ CHR ''.'' # butlast c"
    using ne by (simp add: butlast_append)
  then have "CHR ''.'' \<in> set (butlast (tl (b @ CHR ''.'' # c)))" by simp
  with tw dw r ne show "EMAIL_REGEX_test s"
    by (simp add: EMAIL_REGEX_test_def)
qed



lemma EMAIL_REGEX_test_Nil: "\<not> EMAIL_REGEX_test []"
  by (simp add: EMAIL_REGEX_test_def)



lemma Booking_preSave_store:
  assumes "email b = Some e" "EMAIL_REGEX_test e" "eventId b = Some i"
  shows "Booking_preSave (\<lambda>j. Inr (j \<in> store)) b = (if i \<in> store then Inr b else Inl EventNotFound)"
  using assms EMAIL_REGEX_test_Nil by (auto simp: Booking_preSave_def)

lemma Booking_preSave_missing:
  assumes "eventId b = Some i" "ex i = Inr False"
  shows "isl (Booking_preSave ex b)"
  using assms by (auto simp: Booking_preSave_def split: option.splits)

lemma sampleBooking_email: "email sampleBooking = Some ''ada@example.com''"
  by (simp add: sampleBooking_def newBooking_def setEmail_def string_defs)


lemma sample_email_ok: "EMAIL_REGEX_test ''ada@example.com''"
  by (simp add: EMAIL_REGEX_test_def emailChar_def isSpace_def)

section \<open>Properties of the connection cache\<close>

text \<open>The cached promise keeps the number of a call that has been made.\<close>

lemma pendingPromise_inv:
  "cacheInv w \<Longrightarrow> pendingPromise w = (p, w1) \<Longrightarrow>
     p < connects w1 \<and> connects w \<le> connects w1 \<and> conn (cached w1) = conn (cached w)"
  by (auto simp: pendingPromise_def cacheInv_def split: option.splits)

lemma connectDB_inv: "cacheInv w \<Longrightarrow> cacheInv (snd (connectDB settle w))"
  by (auto simp: connectDB_def cacheInv_def pendingPromise_def split: option.splits sum.splits)

section \<open>The statements of the specification\<close>

text \<open>
  C1. For every title, the slug that the Event hook computes is the title trimmed of
  leading and trailing white space, lower-cased, with the characters that are not
  alphanumeric, white space or a hyphen removed, every run of white space collapsed to a
  single hyphen and repeated hyphens collapsed to one (\<open>slug_spec\<close>): \<open>generateSlug\<close> computes
  it, and a run of the hook that sets the slug stores it. The title
  \<open>"  Tech Meetup 2024!! "\<close> yields \<open>"tech-meetup-2024"\<close>.
\<close>

theorem C1_slug_as_specified:
  "generateSlug title = slug_spec title
   \<and> (\<forall>d d'. Event_preSave host d = Inr d' \<and> strings d Title = Some title
          \<and> (isNew d \<or> isModified Title d \<or> trim title \<noteq> title \<or> falsy (strings d Slug))
        \<longrightarrow> strings d' Slug = Some (slug_spec title))
   \<and> generateSlug ''  Tech Meetup 2024!! '' = ''tech-meetup-2024''"
proof (intro conjI allI impI)
  show "generateSlug title = slug_spec title" by (rule generateSlug_eq_spec)
next
  fix d d'
  assume a: "Event_preSave host d = Inr d' \<and> strings d Title = Some title
          \<and> (isNew d \<or> isModified Title d \<or> trim title \<noteq> title \<or> falsy (strings d Slug))"
  then have "Event_preSave host d = Inr d'" by simp
  from Event_preSave_Inr [OF this] a
  show "strings d' Slug = Some (slug_spec title)"
    by (auto simp: generateSlug_eq_spec)
next
  show "generateSlug ''  Tech Meetup 2024!! '' = ''tech-meetup-2024''"
    by (rule generateSlug_example)
qed

text \<open>The sample event, saved as a new document, gets the slug of the specification.\<close>

theorem C1_witness:
  "\<exists>d'. Event_preSave (\<lambda>s. None) (sampleEvent True {}) = Inr d'
      \<and> strings (sampleEvent True {}) Title = Some ''  Tech Meetup 2024!! ''
      \<and> strings d' Slug = Some (slug_spec ''  Tech Meetup 2024!! '')
      \<and> slug_spec ''  Tech Meetup 2024!! '' = ''tech-meetup-2024''"
proof -
  let ?h = "\<lambda>s::string. None :: int option"
  let ?s = "sampleEvent True {}"
  from date_example [of ?h True "{}"]
  obtain d' where d': "Event_preSave ?h ?s = Inr d'" by blast
  have t: "strings ?s Title = Some ''  Tech Meetup 2024!! ''" by (simp add: sampleEvent_strings)
  have n: "isNew ?s" by (simp add: sampleEvent_tracking)
  note inst = C1_slug_as_specified [of "''  Tech Meetup 2024!! ''" ?h]
  from inst d' t n
  have "strings d' Slug = Some (slug_spec ''  Tech Meetup 2024!! '')" by blast
  moreover from inst have a: "generateSlug ''  Tech Meetup 2024!! '' = slug_spec ''  Tech Meetup 2024!! ''"
    and b: "generateSlug ''  Tech Meetup 2024!! '' = ''tech-meetup-2024''" by blast+
  have "slug_spec ''  Tech Meetup 2024!! '' = ''tech-meetup-2024''"
    by (simp only: a [symmetric] b)
  ultimately show ?thesis using d' t by blast
qed

text \<open>
  C2. The specification states that an unparseable date fails the hook and that every
  parseable date is stored as exactly 10 characters \<open>YYYY-MM-DD\<close>; the comments of the
  source say \<open>YYYY-MM-DD\<close> too. The date string \<open>"+010000-01-01T00:00:00.000Z"\<close> (the
  first instant of the year 10000, as \<open>toISOString\<close> itself writes it) parses, the hook
  succeeds, and the date it stores is \<open>"+010000-01-01"\<close>: 13 characters, not
  \<open>YYYY-MM-DD\<close>, because \<open>toISOString\<close> writes a year outside 0 .. 9999 with a sign and six
  digits and the hook keeps everything before the \<open>T\<close>.
\<close>

theorem C2_year_10000_not_ten_characters:
  "new_Date host ''+010000-01-01T00:00:00.000Z'' = Some 253402300800000
   \<and> toISOString 253402300800000 = ''+010000-01-01T00:00:00.000Z''
   \<and> (\<exists>d'. Event_preSave host
           ((sampleEvent new marked)\<lparr>strings :=
              (strings (sampleEvent new marked))(Date \<mapsto> ''+010000-01-01T00:00:00.000Z'')\<rparr>)
            = Inr d'
        \<and> strings d' Date = Some ''+010000-01-01''
        \<and> length ''+010000-01-01'' = 13)"
proof (intro conjI)
  let ?e = "(sampleEvent new marked)\<lparr>strings :=
              (strings (sampleEvent new marked))(Date \<mapsto> ''+010000-01-01T00:00:00.000Z'')\<rparr>"
  show "new_Date host ''+010000-01-01T00:00:00.000Z'' = Some 253402300800000"
    by (rule big_date)
  show "toISOString 253402300800000 = ''+010000-01-01T00:00:00.000Z''" by (rule iso_10000)
  from Event_preSave_run [of ?e "''+010000-01-01T00:00:00.000Z''" host 253402300800000
      "''09:05''" "''  Tech Meetup 2024!! ''"]
  obtain d' where "Event_preSave host ?e = Inr d' \<and> strings d' Date = Some ''+010000-01-01''"
    by (simp add: sample_defs) blast
  thus "\<exists>d'. Event_preSave host ?e = Inr d'
        \<and> strings d' Date = Some ''+010000-01-01''
        \<and> length ''+010000-01-01'' = 13"
    by simp
qed

text \<open>
  C3. For every input, a trimmed time that does not match
  \<open>^([01]\d|2[0-3]):([0-5]\d)$\<close> makes the hook fail, and a run that succeeds stores a time
  that matches the pattern. For every input that passes the earlier steps (every required
  path present, both arrays present, the date parseable) the hook fails exactly when the
  trimmed time does not match, and then with the time-format error. The time \<open>"9:5"\<close> is
  rejected and \<open>"09:05"\<close> is stored as \<open>"09:05"\<close>.
\<close>

theorem C3_time_validation:
  "(strings d Time = None \<longrightarrow> isl (Event_preSave host d))
   \<and> (\<forall>ts. strings d Time = Some ts \<and> timeMatch (trim ts) = None
         \<longrightarrow> isl (Event_preSave host d))
   \<and> (\<forall>d'. Event_preSave host d = Inr d'
         \<longrightarrow> (\<exists>t' hm. strings d' Time = Some t' \<and> timeMatch t' = Some hm))
   \<and> (\<forall>ds ts. list_all (present d) requiredStringFields \<and> agenda d \<noteq> None \<and> tags d \<noteq> None
          \<and> strings d Date = Some ds \<and> new_Date host (trim ds) \<noteq> None
          \<and> strings d Time = Some ts
         \<longrightarrow> (isl (Event_preSave host d) \<longleftrightarrow> timeMatch (trim ts) = None)
           \<and> (timeMatch (trim ts) = None
                \<longrightarrow> Event_preSave host d = Inl InvalidTimeFormat))
   \<and> Event_preSave host
        ((sampleEvent new marked)\<lparr>strings := (strings (sampleEvent new marked))(Time \<mapsto> ''9:5'')\<rparr>)
       = Inl InvalidTimeFormat
   \<and> (\<exists>d'. Event_preSave host (sampleEvent new marked) = Inr d'
          \<and> strings (sampleEvent new marked) Time = Some ''09:05''
          \<and> strings d' Time = Some ''09:05'')"
proof (intro conjI allI impI)
  assume "strings d Time = None"
  then have "\<not> present d Time" by (simp add: present_def)
  moreover have "Time \<in> set requiredStringFields" by (simp add: requiredStringFields_def)
  ultimately show "isl (Event_preSave host d)"
    using Event_preSave_absent [of Time d host] by auto
next
  fix ts assume "strings d Time = Some ts \<and> timeMatch (trim ts) = None"
  then show "isl (Event_preSave host d)"
    using Event_preSave_bad_time by blast
next
  fix d' assume "Event_preSave host d = Inr d'"
  from Event_preSave_Inr [OF this]
  obtain ts h m where "timeMatch (trim ts) = Some (h, m)" "strings d' Time = Some (trim ts)"
    by blast
  then show "\<exists>t' hm. strings d' Time = Some t' \<and> timeMatch t' = Some hm" by blast
next
  fix ds ts
  assume a: "list_all (present d) requiredStringFields \<and> agenda d \<noteq> None \<and> tags d \<noteq> None
          \<and> strings d Date = Some ds \<and> new_Date host (trim ds) \<noteq> None
          \<and> strings d Time = Some ts"
  then obtain a g where lists: "agenda d = Some a" "tags d = Some g" by auto
  note r = Event_preSave_reaches [OF _ lists, of ds ts host]
  show "isl (Event_preSave host d) \<longleftrightarrow> timeMatch (trim ts) = None"
    using a r by (cases "timeMatch (trim ts)") auto
  assume "timeMatch (trim ts) = None"
  then show "Event_preSave host d = Inl InvalidTimeFormat"
    using a r by auto
next
  let ?e = "(sampleEvent new marked)\<lparr>strings :=
              (strings (sampleEvent new marked))(Time \<mapsto> ''9:5'')\<rparr>"
  from Event_preSave_time_refused [of ?e "''2024-03-05T10:00:00Z''" host 1709632800000 "''9:5''"]
  show "Event_preSave host ?e = Inl InvalidTimeFormat"
    by (simp add: sample_defs)
next
  from Event_preSave_run [of "sampleEvent new marked" "''2024-03-05T10:00:00Z''" host
      1709632800000 "''09:05''" "''  Tech Meetup 2024!! ''"]
  obtain d' where "Event_preSave host (sampleEvent new marked) = Inr d'
      \<and> strings d' Time = Some ''09:05''"
    by (simp add: sample_defs) blast
  thus "\<exists>d'. Event_preSave host (sampleEvent new marked) = Inr d'
          \<and> strings (sampleEvent new marked) Time = Some ''09:05''
          \<and> strings d' Time = Some ''09:05''"
    by (simp add: sampleEvent_strings)
qed

text \<open>
  Without the condition on the earlier steps the equivalence does not hold: an event
  without a title and with the time \<open>"09:05"\<close> fails, on the title, although its time
  matches.
\<close>

theorem C3_counterexample:
  "strings ((sampleEvent True {})\<lparr>strings := (strings (sampleEvent True {}))(Title := None)\<rparr>) Time
     = Some ''09:05''
   \<and> timeMatch (trim ''09:05'') = Some (''09'', ''05'')
   \<and> Event_preSave (\<lambda>s. None)
        ((sampleEvent True {})\<lparr>strings := (strings (sampleEvent True {}))(Title := None)\<rparr>)
       = Inl (FieldRequired Title)"
  by (simp add: Event_preSave_def sample_defs)

text \<open>The two times of the claim, on the sample event saved as a new document.\<close>

theorem C3_witness:
  "strings ((sampleEvent True {})\<lparr>strings := (strings (sampleEvent True {}))(Time \<mapsto> ''9:5'')\<rparr>) Time
     = Some ''9:5''
   \<and> timeMatch (trim ''9:5'') = None
   \<and> Event_preSave (\<lambda>s. None)
        ((sampleEvent True {})\<lparr>strings := (strings (sampleEvent True {}))(Time \<mapsto> ''9:5'')\<rparr>)
       = Inl InvalidTimeFormat
   \<and> timeMatch (trim ''09:05'') = Some (''09'', ''05'')
   \<and> (\<exists>d'. Event_preSave (\<lambda>s. None) (sampleEvent True {}) = Inr d'
         \<and> strings d' Time = Some ''09:05'')"
proof -
  let ?h = "\<lambda>s::string. None :: int option"
  let ?s = "sampleEvent True {}"
  let ?e = "?s\<lparr>strings := (strings ?s)(Time \<mapsto> ''9:5'')\<rparr>"
  have t: "strings ?e Time = Some ''9:5''" by simp
  have t2: "strings ?s Time = Some ''09:05''" by (simp add: sampleEvent_strings)
  have m: "timeMatch (trim ''9:5'') = None" by (simp add: trim_def isSpace_def)
  have m2: "timeMatch (trim ''09:05'') = Some (''09'', ''05'')"
    by (simp add: trim_def isSpace_def isDigit_def inRange_def)
  have pre: "list_all (present ?e) requiredStringFields \<and> agenda ?e \<noteq> None \<and> tags ?e \<noteq> None
       \<and> strings ?e Date = Some ''2024-03-05T10:00:00Z''
       \<and> new_Date ?h (trim ''2024-03-05T10:00:00Z'') \<noteq> None"
    by (simp add: sample_defs)
  have pre2: "list_all (present ?s) requiredStringFields \<and> agenda ?s \<noteq> None \<and> tags ?s \<noteq> None
       \<and> strings ?s Date = Some ''2024-03-05T10:00:00Z''
       \<and> new_Date ?h (trim ''2024-03-05T10:00:00Z'') \<noteq> None"
    by (simp add: sample_defs)
  from C3_time_validation [of ?e ?h True "{}"] pre t m
  have bad: "Event_preSave ?h ?e = Inl InvalidTimeFormat" by blast
  from C3_time_validation [of ?s ?h True "{}"] pre2 t2 m2
  have "\<not> isl (Event_preSave ?h ?s)" by auto
  then obtain d' where d': "Event_preSave ?h ?s = Inr d'"
    by (cases "Event_preSave ?h ?s") auto
  from C3_time_validation [of ?s ?h True "{}"] d'
  have "strings d' Time = Some ''09:05''" by auto
  with t m m2 bad d' show ?thesis by blast
qed

text \<open>
  C4. Saving a Booking asks the Event store whether the referenced Event exists: the hook
  fails whenever the store finds no such Event, and for a booking with a valid email and a
  store holding the set \<open>store\<close> of Event identities it succeeds, leaving the booking as it
  is, exactly when the referenced identity is in the store; otherwise it fails with the
  error of the missing Event.
\<close>

theorem C4_booking_needs_existing_event:
  "(\<forall>i. eventId b = Some i \<and> Event_exists i = Inr False
        \<longrightarrow> isl (Booking_preSave Event_exists b))
   \<and> (\<forall>e i. email b = Some e \<and> EMAIL_REGEX_test e \<and> eventId b = Some i
        \<longrightarrow> Booking_preSave (\<lambda>j. Inr (j \<in> store)) b
             = (if i \<in> store then Inr b else Inl EventNotFound))"
proof (intro conjI allI impI)
  fix i assume "eventId b = Some i \<and> Event_exists i = Inr False"
  then show "isl (Booking_preSave Event_exists b)"
    using Booking_preSave_missing [of b i Event_exists] by simp
next
  fix e i assume "email b = Some e \<and> EMAIL_REGEX_test e \<and> eventId b = Some i"
  then show "Booking_preSave (\<lambda>j. Inr (j \<in> store)) b
             = (if i \<in> store then Inr b else Inl EventNotFound)"
    using Booking_preSave_store [of b e i store] by simp
qed

text \<open>The sample booking refers to Event 7: it is saved when the store has 7, and not otherwise.\<close>

theorem C4_witness:
  "eventId sampleBooking = Some 7 \<and> email sampleBooking = Some ''ada@example.com''
   \<and> EMAIL_REGEX_test ''ada@example.com''
   \<and> Booking_preSave (\<lambda>j. Inr (j \<in> {3, 7})) sampleBooking = Inr sampleBooking
   \<and> Booking_preSave (\<lambda>j. Inr (j \<in> {3})) sampleBooking = Inl EventNotFound
   \<and> isl (Booking_preSave (\<lambda>j. Inr (j \<in> {3})) sampleBooking)"
proof -
  have i: "eventId sampleBooking = Some 7" by (simp add: sampleBooking_def newBooking_def)
  note e = sampleBooking_email sample_email_ok
  have h: "email sampleBooking = Some ''ada@example.com'' \<and> EMAIL_REGEX_test ''ada@example.com''
      \<and> eventId sampleBooking = Some 7"
    using i e by simp
  note inst1 = C4_booking_needs_existing_event [of sampleBooking "\<lambda>j. Inr (j \<in> {3})" "{3, 7}",
      THEN conjunct2, rule_format, OF h]
  note inst2 = C4_booking_needs_existing_event [of sampleBooking "\<lambda>j. Inr (j \<in> {3})" "{3}",
      THEN conjunct2, rule_format, OF h]
  have g: "eventId sampleBooking = Some 7 \<and> (\<lambda>j. Inr (j \<in> {3::nat}) :: error + bool) 7 = Inr False"
    using i by simp
  note inst3 = C4_booking_needs_existing_event [of sampleBooking "\<lambda>j. Inr (j \<in> {3})" "{3}",
      THEN conjunct1, rule_format, OF g]
  have 1: "Booking_preSave (\<lambda>j. Inr (j \<in> {3, 7})) sampleBooking = Inr sampleBooking"
    using inst1 by simp
  have 2: "Booking_preSave (\<lambda>j. Inr (j \<in> {3})) sampleBooking = Inl EventNotFound"
    using inst2 by simp
  from i e 1 2 inst3 show ?thesis by (intro conjI)
qed

text \<open>
  C5. If the connection attempt that a call of \<open>connectDB\<close> awaits rejects, the call fails
  with the rejection and leaves no cached attempt (and no connection), so that the next
  call starts a new attempt and its result is the outcome of that new attempt; the new
  attempt is one made after the rejected one.
\<close>

theorem C5_rejected_attempt_is_cleared:
  assumes "conn (cached w) = None"
    and "settle (fst (pendingPromise w)) = Inl e"
  shows "fst (connectDB settle w) = Inl e
     \<and> promise (cached (snd (connectDB settle w))) = None
     \<and> conn (cached (snd (connectDB settle w))) = None
     \<and> fst (pendingPromise (snd (connectDB settle w))) = connects (snd (connectDB settle w))
     \<and> connects (snd (connectDB settle (snd (connectDB settle w))))
          = Suc (connects (snd (connectDB settle w)))
     \<and> fst (connectDB settle (snd (connectDB settle w)))
          = settle (connects (snd (connectDB settle w)))
     \<and> (cacheInv w \<longrightarrow> fst (pendingPromise w) < connects (snd (connectDB settle w)))"
proof -
  obtain p w1 where pw: "pendingPromise w = (p, w1)" by (cases "pendingPromise w")
  define w' where "w' = w1\<lparr>cached := (cached w1)\<lparr>promise := None\<rparr>\<rparr>"
  have run: "connectDB settle w = (Inl e, w')"
    using assms pw by (simp add: connectDB_def w'_def)
  have c1: "conn (cached w1) = conn (cached w)"
    using pw by (auto simp: pendingPromise_def split: option.splits)
  have c: "conn (cached w') = None" "promise (cached w') = None" "connects w' = connects w1"
    using c1 assms(1) by (simp_all add: w'_def)
  have pp: "pendingPromise w' =
       (connects w', w'\<lparr>cached := (cached w')\<lparr>promise := Some (connects w')\<rparr>,
                       connects := Suc (connects w')\<rparr>)"
    using c by (simp add: pendingPromise_def)
  have next_run: "fst (connectDB settle w') = settle (connects w')"
    "connects (snd (connectDB settle w')) = Suc (connects w')"
    using c pp by (auto simp: connectDB_def split: sum.splits)
  have "p < connects w'" if "cacheInv w"
    using pendingPromise_inv [OF that pw] c by simp
  then show ?thesis
    using run c pp next_run pw by simp
qed

text \<open>
  A process whose first connection attempt is refused and whose second succeeds: the
  first call fails, the second call makes the second attempt and returns its instance.
\<close>

theorem C5_witness:
  "conn (cached freshProcess) = None \<and> cacheInv freshProcess
   \<and> refusedOnce (fst (pendingPromise freshProcess)) = Inl ''ECONNREFUSED''
   \<and> fst (connectDB refusedOnce freshProcess) = Inl ''ECONNREFUSED''
   \<and> promise (cached (snd (connectDB refusedOnce freshProcess))) = None
   \<and> connects (snd (connectDB refusedOnce freshProcess)) = 1
   \<and> fst (connectDB refusedOnce (snd (connectDB refusedOnce freshProcess))) = Inr ''mongoose''
   \<and> connects (snd (connectDB refusedOnce (snd (connectDB refusedOnce freshProcess)))) = 2
   \<and> fst (pendingPromise freshProcess) < connects (snd (connectDB refusedOnce freshProcess))"
proof -
  have h1: "conn (cached freshProcess) = None" by (simp add: freshProcess_def)
  have h2: "cacheInv freshProcess" by (simp add: freshProcess_def cacheInv_def)
  have p0: "fst (pendingPromise freshProcess) = 0"
    by (simp add: freshProcess_def pendingPromise_def)
  have h3: "refusedOnce (fst (pendingPromise freshProcess)) = Inl ''ECONNREFUSED''"
    by (simp add: p0 refusedOnce_def)
  note inst = C5_rejected_attempt_is_cleared [of freshProcess refusedOnce "''ECONNREFUSED''", OF h1 h3]
  have k: "connects (snd (connectDB refusedOnce freshProcess)) = 1"
    by (simp add: connectDB_def freshProcess_def pendingPromise_def refusedOnce_def)
  from inst k have "fst (connectDB refusedOnce (snd (connectDB refusedOnce freshProcess)))
      = Inr ''mongoose''"
    by (simp add: refusedOnce_def)
  moreover from inst k
  have "connects (snd (connectDB refusedOnce (snd (connectDB refusedOnce freshProcess)))) = 2"
    by simp
  ultimately show ?thesis using h1 h2 h3 inst k by simp
qed

text \<open>
  C6. Slug generation is idempotent: generating the slug of a slug gives the same slug.
\<close>

theorem C6_generateSlug_idempotent:
  "generateSlug (generateSlug title) = generateSlug title"
  by (rule generateSlug_idem)

text \<open>
  C7. In a run of the Event hook that succeeds, the title is marked modified when the
  hook is done exactly when the document is new, the title was modified before the save,
  or trimming changes the title: the hook writes the trimmed title back before it asks
  whether the title is modified, and a write that changes the value marks the path. The
  slug is recomputed from the title exactly when one of these holds or the slug is unset
  (absent or empty); when the document is not new, the title is unmodified and already
  trimmed, and a slug is present, the slug is left as it was.
\<close>

theorem C7_slug_recomputed_when_title_marked:
  assumes "Event_preSave host d = Inr d'"
  shows "\<exists>t. strings d Title = Some t
     \<and> (isModified Title d' \<longleftrightarrow> isNew d \<or> isModified Title d \<or> trim t \<noteq> t)
     \<and> (isNew d \<or> isModified Title d \<or> trim t \<noteq> t \<or> falsy (strings d Slug)
          \<longrightarrow> strings d' Slug = Some (generateSlug t))
     \<and> (\<not> isNew d \<and> \<not> isModified Title d \<and> trim t = t \<and> \<not> falsy (strings d Slug)
          \<longrightarrow> strings d' Slug = strings d Slug)"
proof -
  from Event_preSave_Inr [OF assms] obtain t where t: "strings d Title = Some t"
    and s: "strings d' Slug =
            (if isNew d \<or> isModified Title d \<or> trim t \<noteq> t \<or> falsy (strings d Slug)
             then Some (generateSlug t) else strings d Slug)"
    by blast
  note m = Event_preSave_title_marked [OF assms t]
  show ?thesis using t s m by simp
qed

text \<open>
  Without the condition that the title is already trimmed the slug is not kept: the event
  loaded with the stored title \<open>"  Tech Meetup 2024!! "\<close> and the slug \<open>"spring-meetup"\<close>,
  saved with no path modified, is stored with the slug \<open>"tech-meetup-2024"\<close>.
\<close>

theorem C7_counterexample:
  "\<not> isNew (loadedEvent ''  Tech Meetup 2024!! '' {})
   \<and> \<not> isModified Title (loadedEvent ''  Tech Meetup 2024!! '' {})
   \<and> strings (loadedEvent ''  Tech Meetup 2024!! '' {}) Slug = Some ''spring-meetup''
   \<and> \<not> falsy (strings (loadedEvent ''  Tech Meetup 2024!! '' {}) Slug)
   \<and> (\<exists>d'. Event_preSave (\<lambda>s. None) (loadedEvent ''  Tech Meetup 2024!! '' {}) = Inr d'
         \<and> strings d' Slug = Some ''tech-meetup-2024''
         \<and> strings d' Slug \<noteq> strings (loadedEvent ''  Tech Meetup 2024!! '' {}) Slug)"
proof -
  let ?h = "\<lambda>s::string. None :: int option"
  let ?e = "loadedEvent ''  Tech Meetup 2024!! '' {}"
  from Event_preSave_run [of ?e "''2024-03-05T10:00:00Z''" ?h 1709632800000 "''09:05''"
      "''  Tech Meetup 2024!! ''"]
  obtain d' where "Event_preSave ?h ?e = Inr d' \<and> strings d' Slug = Some ''tech-meetup-2024''"
    by (simp add: loadedEvent_facts sample_defs generateSlug_example) blast
  thus ?thesis by (simp add: loadedEvent_facts sample_defs)
qed

text \<open>
  The event loaded with the trimmed title \<open>"Tech Meetup 2024"\<close> and a slug of its own:
  saved with no path modified, the slug is kept; saved with the title modified, the slug
  is recomputed. The sample event, which has no slug, gets one.
\<close>

theorem C7_witness:
  "(\<exists>d'. Event_preSave (\<lambda>s. None) (loadedEvent ''Tech Meetup 2024'' {}) = Inr d'
         \<and> \<not> isModified Title d'
         \<and> strings (loadedEvent ''Tech Meetup 2024'' {}) Slug = Some ''spring-meetup''
         \<and> strings d' Slug = Some ''spring-meetup'')
   \<and> (\<exists>d'. Event_preSave (\<lambda>s. None) (loadedEvent ''Tech Meetup 2024'' {Title}) = Inr d'
         \<and> isModified Title d'
         \<and> strings d' Slug = Some ''tech-meetup-2024'')
   \<and> (\<exists>d'. Event_preSave (\<lambda>s. None) (sampleEvent False {}) = Inr d'
         \<and> strings (sampleEvent False {}) Slug = None
         \<and> strings d' Slug = Some ''tech-meetup-2024'')"
proof -
  let ?h = "\<lambda>s::string. None :: int option"
  let ?a = "loadedEvent ''Tech Meetup 2024'' {}"
  let ?b = "loadedEvent ''Tech Meetup 2024'' {Title}"
  let ?c = "sampleEvent False {}"
  note facts = loadedEvent_facts sample_defs
  from Event_preSave_run [of ?a "''2024-03-05T10:00:00Z''" ?h 1709632800000 "''09:05''"
      "''Tech Meetup 2024''"]
  obtain d1 where d1: "Event_preSave ?h ?a = Inr d1" by (simp add: facts) blast
  from Event_preSave_run [of ?b "''2024-03-05T10:00:00Z''" ?h 1709632800000 "''09:05''"
      "''Tech Meetup 2024''"]
  obtain d2 where d2: "Event_preSave ?h ?b = Inr d2" by (simp add: facts) blast
  from date_example [of ?h False "{}"]
  obtain d3 where d3: "Event_preSave ?h ?c = Inr d3" by blast
  have ta: "strings ?a Title = Some ''Tech Meetup 2024''"
    and tb: "strings ?b Title = Some ''Tech Meetup 2024''"
    and tc: "strings ?c Title = Some ''  Tech Meetup 2024!! ''"
    by (simp_all add: facts)
  have sa: "strings ?a Slug = Some ''spring-meetup''" and sc: "strings ?c Slug = None"
    by (simp_all add: facts)
  have r1: "\<not> isModified Title d1 \<and> strings d1 Slug = Some ''spring-meetup''"
    using C7_slug_recomputed_when_title_marked [OF d1] ta by (simp add: facts)
  have r2: "isModified Title d2 \<and> strings d2 Slug = Some ''tech-meetup-2024''"
    using C7_slug_recomputed_when_title_marked [OF d2] tb by (simp add: facts sample_slugs)
  have r3: "strings d3 Slug = Some ''tech-meetup-2024''"
    using C7_slug_recomputed_when_title_marked [OF d3] tc
    by (simp add: facts generateSlug_example)
  from d1 d2 d3 r1 r2 r3 sa sc show ?thesis by simp
qed



text \<open>
  C9. The title \<open>"!!!"\<close> is not blank after trimming, so the required-field check accepts
  it, and its slug is the empty string: the hook succeeds and stores the slug \<open>""\<close>.
\<close>

theorem C9_blank_slug_from_accepted_title:
  "trim ''!!!'' \<noteq> [] \<and> generateSlug ''!!!'' = ''''
   \<and> (\<exists>d'. Event_preSave host
               ((sampleEvent new marked)\<lparr>strings :=
                  (strings (sampleEvent new marked))(Title \<mapsto> ''!!!'')\<rparr>) = Inr d'
            \<and> strings d' Title = Some ''!!!'' \<and> strings d' Slug = Some '''')"
proof (intro conjI)
  let ?e = "(sampleEvent new marked)\<lparr>strings :=
                  (strings (sampleEvent new marked))(Title \<mapsto> ''!!!'')\<rparr>"
  show "trim ''!!!'' \<noteq> []" by (simp add: trim_def isSpace_def)
  show "generateSlug ''!!!'' = ''''" by (simp add: sample_slugs)
  from Event_preSave_run [of ?e "''2024-03-05T10:00:00Z''" host 1709632800000 "''09:05''"
      "''!!!''"]
  obtain d' where "Event_preSave host ?e = Inr d'
      \<and> strings d' Title = Some ''!!!'' \<and> strings d' Slug = Some ''''"
    by (simp add: sample_defs sample_slugs) blast
  thus "\<exists>d'. Event_preSave host ?e = Inr d'
            \<and> strings d' Title = Some ''!!!'' \<and> strings d' Slug = Some ''''"
    by simp
qed

text \<open>
  C10. The hook does not reformat a valid time: when the trimmed time matches the pattern,
  the two groups of the match joined by a colon are the trimmed time itself, every
  successful run stores the trimmed time character for character, and an input that
  passes the other steps does succeed. The time \<open>"9:05"\<close> is rejected, not padded.
\<close>

theorem C10_time_stored_as_given:
  assumes "strings d Time = Some ts" and "timeMatch (trim ts) = Some (hours, minutes)"
  shows "hours @ '':'' @ minutes = trim ts
     \<and> (\<forall>d'. Event_preSave host d = Inr d' \<longrightarrow> strings d' Time = Some (trim ts))
     \<and> (list_all (present d) requiredStringFields \<and> agenda d \<noteq> None \<and> tags d \<noteq> None
          \<and> (\<exists>ds. strings d Date = Some ds \<and> new_Date host (trim ds) \<noteq> None)
         \<longrightarrow> (\<exists>d'. Event_preSave host d = Inr d'))
     \<and> Event_preSave host
          ((sampleEvent new marked)\<lparr>strings :=
             (strings (sampleEvent new marked))(Time \<mapsto> ''9:05'')\<rparr>) = Inl InvalidTimeFormat"
proof (intro conjI allI impI)
  show "hours @ '':'' @ minutes = trim ts" using assms(2) by (rule timeMatch_groups)
next
  fix d' assume "Event_preSave host d = Inr d'"
  from Event_preSave_Inr [OF this] assms(1) show "strings d' Time = Some (trim ts)" by auto
next
  assume a: "list_all (present d) requiredStringFields \<and> agenda d \<noteq> None \<and> tags d \<noteq> None
          \<and> (\<exists>ds. strings d Date = Some ds \<and> new_Date host (trim ds) \<noteq> None)"
  then obtain a g ds where l: "agenda d = Some a" "tags d = Some g"
    and ds: "strings d Date = Some ds" "new_Date host (trim ds) \<noteq> None" by auto
  from a have p: "list_all (present d) requiredStringFields" by simp
  show "\<exists>d'. Event_preSave host d = Inr d'"
    using Event_preSave_reaches [OF p l ds(1) assms(1), of host] ds(2) assms(2) by auto
next
  let ?e = "(sampleEvent new marked)\<lparr>strings :=
             (strings (sampleEvent new marked))(Time \<mapsto> ''9:05'')\<rparr>"
  from Event_preSave_time_refused [of ?e "''2024-03-05T10:00:00Z''" host 1709632800000 "''9:05''"]
  show "Event_preSave host ?e = Inl InvalidTimeFormat"
    by (simp add: sample_defs)
qed

text \<open>The time \<open>"  23:59 "\<close> on the sample event is stored as \<open>"23:59"\<close>.\<close>

theorem C10_witness:
  "strings ((sampleEvent True {})\<lparr>strings :=
              (strings (sampleEvent True {}))(Time \<mapsto> ''  23:59 '')\<rparr>) Time
     = Some ''  23:59 ''
   \<and> timeMatch (trim ''  23:59 '') = Some (''23'', ''59'')
   \<and> trim ''  23:59 '' = ''23:59''
   \<and> (\<exists>d'. Event_preSave (\<lambda>s. None)
              ((sampleEvent True {})\<lparr>strings :=
                 (strings (sampleEvent True {}))(Time \<mapsto> ''  23:59 '')\<rparr>) = Inr d'
          \<and> strings d' Time = Some ''23:59'')"
proof -
  let ?h = "\<lambda>s::string. None :: int option"
  let ?s = "sampleEvent True {}"
  let ?e = "?s\<lparr>strings := (strings ?s)(Time \<mapsto> ''  23:59 '')\<rparr>"
  have t: "strings ?e Time = Some ''  23:59 ''" by simp
  have tr: "trim ''  23:59 '' = ''23:59''" by (simp add: trim_def isSpace_def)
  have m: "timeMatch (trim ''  23:59 '') = Some (''23'', ''59'')"
    by (simp add: tr isDigit_def inRange_def)
  have pre: "list_all (present ?e) requiredStringFields \<and> agenda ?e \<noteq> None \<and> tags ?e \<noteq> None
          \<and> (\<exists>ds. strings ?e Date = Some ds \<and> new_Date ?h (trim ds) \<noteq> None)"
    by (simp add: sample_defs)
  note inst = C10_time_stored_as_given [OF t m, of ?h True "{}"]
  from inst pre obtain d' where d': "Event_preSave ?h ?e = Inr d'" by blast
  with inst have "strings d' Time = Some (trim ''  23:59 '')" by blast
  with d' t m tr show ?thesis by simp
qed

end
